theory Spec2Isabelle
  imports Main "HOL-Library.AList" "HOL-Library.Char_ord" "HOL-Library.List_Lexorder"
begin

section \<open>JavaScript values used by the control plane\<close>

text \<open>
  Strings are lists of characters. \<open>toLowerCase\<close> is JavaScript's
  \<open>String.prototype.toLowerCase\<close> on the ASCII letters; every other character is
  left as it is.
\<close>

definition lowerChar :: "char \<Rightarrow> char" where
  "lowerChar c =
     (case map_of (zip ''ABCDEFGHIJKLMNOPQRSTUVWXYZ'' ''abcdefghijklmnopqrstuvwxyz'') c of
        Some d \<Rightarrow> d
      | None \<Rightarrow> c)"

definition toLowerCase :: "string \<Rightarrow> string" where
  "toLowerCase s = map lowerChar s"

text \<open>\<open>Array.prototype.join\<close> on strings.\<close>

fun join :: "string \<Rightarrow> string list \<Rightarrow> string" where
  "join sep [] = []"
| "join sep [x] = x"
| "join sep (x # y # ys) = x @ sep @ join sep (y # ys)"

text \<open>
  A string-valued property that may be absent is a \<open>string option\<close>; \<open>None\<close> is
  \<open>undefined\<close> (or \<open>null\<close>). The empty string is falsy, as in JavaScript.
\<close>

definition truthy :: "string option \<Rightarrow> bool" where
  "truthy v = (case v of None \<Rightarrow> False | Some s \<Rightarrow> s \<noteq> [])"

text \<open>\<open>a || b\<close> on two optional strings, and \<open>a || 'literal'\<close>.\<close>

definition orStr :: "string option \<Rightarrow> string option \<Rightarrow> string option" where
  "orStr a b = (if truthy a then a else b)"

definition strOr :: "string option \<Rightarrow> string \<Rightarrow> string" where
  "strOr a d = (case a of None \<Rightarrow> d | Some s \<Rightarrow> if s = [] then d else s)"

text \<open>\<open>String(v)\<close> and template interpolation of an optional string.\<close>

definition String :: "string option \<Rightarrow> string" where
  "String v = (case v of None \<Rightarrow> ''undefined'' | Some s \<Rightarrow> s)"

text \<open>Decimal rendering of numbers in template strings.\<close>

definition digitChar :: "nat \<Rightarrow> char" where
  "digitChar n = ''0123456789'' ! (n mod 10)"

fun showNat :: "nat \<Rightarrow> string" where
  "showNat n = (if n < 10 then [digitChar n] else showNat (n div 10) @ [digitChar n])"

declare showNat.simps [simp del]

definition showInt :: "int \<Rightarrow> string" where
  "showInt i = (if i < 0 then ''-'' @ showNat (nat (- i)) else showNat (nat i))"

definition showBool :: "bool \<Rightarrow> string" where
  "showBool b = (if b then ''true'' else ''false'')"

text \<open>\<open>String.prototype.trim\<close> on the ASCII white space characters.\<close>

definition isSpace :: "char \<Rightarrow> bool" where
  "isSpace c \<longleftrightarrow> c \<in> set [CHR 0x20, CHR 0x09, CHR 0x0A, CHR 0x0B, CHR 0x0C, CHR 0x0D]"

definition trim :: "string \<Rightarrow> string" where
  "trim s = rev (dropWhile isSpace (rev (dropWhile isSpace s)))"

text \<open>\<open>contains pat s\<close>: \<open>pat\<close> occurs in \<open>s\<close> as a contiguous substring.\<close>

fun contains :: "string \<Rightarrow> string \<Rightarrow> bool" where
  "contains pat [] = (pat = [])"
| "contains pat (c # cs) = (take (length pat) (c # cs) = pat \<or> contains pat cs)"

text \<open>
  \<open>JSON.stringify\<close> of a string: quotes, with the quote, the backslash and the
  control characters escaped.
\<close>

definition hexDigit :: "nat \<Rightarrow> char" where
  "hexDigit n = ''0123456789abcdef'' ! (n mod 16)"

definition jsonEscape :: "char \<Rightarrow> string" where
  "jsonEscape c =
     (if c = CHR 0x22 then [CHR 0x5C, CHR 0x22]
      else if c = CHR 0x5C then [CHR 0x5C, CHR 0x5C]
      else if c = CHR 0x08 then [CHR 0x5C, CHR ''b'']
      else if c = CHR 0x0C then [CHR 0x5C, CHR ''f'']
      else if c = CHR 0x0A then [CHR 0x5C, CHR ''n'']
      else if c = CHR 0x0D then [CHR 0x5C, CHR ''r'']
      else if c = CHR 0x09 then [CHR 0x5C, CHR ''t'']
      else if (of_char c :: nat) < 32
        then [CHR 0x5C, CHR ''u'', CHR ''0'', CHR ''0'',
              hexDigit ((of_char c :: nat) div 16), hexDigit (of_char c :: nat)]
      else [c])"

definition jsonString :: "string \<Rightarrow> string" where
  "jsonString s = [CHR 0x22] @ concat (map jsonEscape s) @ [CHR 0x22]"

text \<open>
  The characters outside ASCII that the source's messages use, as their UTF-8 bytes:
  the arrow U+2192, the en dash U+2013, the bullet U+2022 and the ellipsis U+2026.
\<close>

definition arrow :: string where
  "arrow = [CHR 0xE2, CHR 0x86, CHR 0x92]"

definition enDash :: string where
  "enDash = [CHR 0xE2, CHR 0x80, CHR 0x93]"

definition bullet :: string where
  "bullet = [CHR 0xE2, CHR 0x80, CHR 0xA2]"

definition ellipsis :: string where
  "ellipsis = [CHR 0xE2, CHR 0x80, CHR 0xA6]"

definition newline :: string where
  "newline = [CHR 0x0A]"

text \<open>
  A \<open>Set\<close> or the key list of a \<open>Map\<close> iterates in insertion order: \<open>uniq\<close> keeps
  the first occurrence of each element, \<open>setAdd\<close> is \<open>Set.prototype.add\<close>.
\<close>

definition uniq :: "'a list \<Rightarrow> 'a list" where
  "uniq xs = rev (remdups (rev xs))"

definition setAdd :: "'a \<Rightarrow> 'a list \<Rightarrow> 'a list" where
  "setAdd x xs = (if x \<in> set xs then xs else xs @ [x])"

text \<open>
  The two functions of the JavaScript runtime that the control plane calls on dates:
  \<open>toISOString\<close> renders an epoch time in milliseconds, \<open>parseDate s\<close> is
  \<open>new Date(s).getTime()\<close>, with \<open>None\<close> for \<open>NaN\<close> (an invalid date).
\<close>

record runtime =
  toISOString :: "int \<Rightarrow> string"
  parseDate :: "string option \<Rightarrow> int option"

section \<open>Policy store (server/policy/store.js)\<close>

record policy =
  alarmPrioritization :: string
  waysOfWorking :: string
  kpiAlignment :: string
  updatedAt :: string
  version :: int
  source :: "string option"

text \<open>The policy at module load; \<open>loadIso\<close> is the load time's ISO string.\<close>

definition DEFAULT_POLICY :: "string \<Rightarrow> policy" where
  "DEFAULT_POLICY loadIso =
     \<lparr> alarmPrioritization = ''Critical First'',
       waysOfWorking = ''Human intervention at critical steps'',
       kpiAlignment = ''>95%'',
       updatedAt = loadIso,
       version = 1,
       source = None \<rparr>"

text \<open>
  A patch supplies any subset of the three enum fields; \<open>None\<close> is a field that is
  \<open>undefined\<close> in the request body.
\<close>

record patch =
  patchAlarmPrioritization :: "string option"
  patchWaysOfWorking :: "string option"
  patchKpiAlignment :: "string option"

definition ALARM_OPTIONS :: "string list" where
  "ALARM_OPTIONS = [''Critical First'', ''Adaptive Correlation'']"

definition WOW_OPTIONS :: "string list" where
  "WOW_OPTIONS = [''E2E automation'', ''Human intervention at critical steps'']"

definition KPI_OPTIONS :: "string list" where
  "KPI_OPTIONS = [''>95%'', ''75%'']"

text \<open>
  \<open>toCanonMap\<close> builds the \<open>Map\<close> from the lowercased option to the canonical
  string; \<open>Map.set\<close> on a key that is present replaces its value in place, which is
  \<open>AList.update\<close>.
\<close>

definition toCanonMap :: "string list \<Rightarrow> (string \<times> string) list" where
  "toCanonMap arr = fold (\<lambda>v m. AList.update (toLowerCase v) v m) arr []"

definition ALARM_CANON :: "(string \<times> string) list" where
  "ALARM_CANON = toCanonMap ALARM_OPTIONS"

definition WOW_CANON :: "(string \<times> string) list" where
  "WOW_CANON = toCanonMap WOW_OPTIONS"

definition KPI_CANON :: "(string \<times> string) list" where
  "KPI_CANON = toCanonMap KPI_OPTIONS"

text \<open>The thrown \<open>Error\<close> is the left summand, carrying its message.\<close>

definition toCanonical :: "string option \<Rightarrow> (string \<times> string) list \<Rightarrow> string \<Rightarrow> string + string option" where
  "toCanonical val m label =
     (case val of
        None \<Rightarrow> Inr None
      | Some v \<Rightarrow>
          (case map_of m (toLowerCase v) of
             None \<Rightarrow> Inl (label @ '' must be one of: '' @ join '', '' (map snd m))
           | Some canon \<Rightarrow>
               if canon = [] then Inl (label @ '' must be one of: '' @ join '', '' (map snd m))
               else Inr (Some canon)))"

definition validatePatch :: "patch \<Rightarrow> string + patch" where
  "validatePatch p =
     (case (if patchAlarmPrioritization p \<noteq> None
            then toCanonical (patchAlarmPrioritization p) ALARM_CANON ''alarmPrioritization''
            else Inr None) of
        Inl e \<Rightarrow> Inl e
      | Inr a \<Rightarrow>
     (case (if patchWaysOfWorking p \<noteq> None
            then toCanonical (patchWaysOfWorking p) WOW_CANON ''waysOfWorking''
            else Inr None) of
        Inl e \<Rightarrow> Inl e
      | Inr w \<Rightarrow>
     (case (if patchKpiAlignment p \<noteq> None
            then toCanonical (patchKpiAlignment p) KPI_CANON ''kpiAlignment''
            else Inr None) of
        Inl e \<Rightarrow> Inl e
      | Inr k \<Rightarrow>
          Inr \<lparr> patchAlarmPrioritization = a, patchWaysOfWorking = w, patchKpiAlignment = k \<rparr>)))"

definition orElse :: "'a option \<Rightarrow> 'a \<Rightarrow> 'a" where
  "orElse v d = (case v of None \<Rightarrow> d | Some x \<Rightarrow> x)"

text \<open>
  \<open>setPolicy patch source\<close> on the stored policy. \<open>nowIso\<close> is the value of
  \<open>new Date().toISOString()\<close> read by the call. The result pairs the returned value
  (or the thrown error) with the policy stored afterwards; the writes to SSE subscribers
  and the calls of the in-process listeners do not touch the store.
\<close>

definition setPolicy :: "patch \<Rightarrow> string \<Rightarrow> string \<Rightarrow> policy \<Rightarrow> (string + policy) \<times> policy" where
  "setPolicy p src nowIso pol =
     (case validatePatch p of
        Inl e \<Rightarrow> (Inl e, pol)
      | Inr valid \<Rightarrow>
          (let pol' = pol
                 \<lparr> alarmPrioritization := orElse (patchAlarmPrioritization valid) (alarmPrioritization pol),
                   waysOfWorking := orElse (patchWaysOfWorking valid) (waysOfWorking pol),
                   kpiAlignment := orElse (patchKpiAlignment valid) (kpiAlignment pol),
                   version := version pol + 1,
                   updatedAt := nowIso,
                   source := Some src \<rparr>
           in (Inr pol', pol')))"

text \<open>
  A supplied value matches an option list when its lowercase form is the lowercase form
  of one of the options; a field that is not supplied matches trivially.
\<close>

definition matchesOption :: "string list \<Rightarrow> string option \<Rightarrow> bool" where
  "matchesOption opts val =
     (case val of None \<Rightarrow> True | Some v \<Rightarrow> toLowerCase v \<in> set (map toLowerCase opts))"

definition patchMatches :: "patch \<Rightarrow> bool" where
  "patchMatches p \<longleftrightarrow>
     matchesOption ALARM_OPTIONS (patchAlarmPrioritization p) \<and>
     matchesOption WOW_OPTIONS (patchWaysOfWorking p) \<and>
     matchesOption KPI_OPTIONS (patchKpiAlignment p)"

text \<open>
  What a field holds after an accepted patch: the canonical option that the supplied
  value matches, or the old value when the field was not supplied.
\<close>

definition canonicalised :: "string list \<Rightarrow> string option \<Rightarrow> string \<Rightarrow> string \<Rightarrow> bool" where
  "canonicalised opts val old new =
     (case val of
        None \<Rightarrow> new = old
      | Some v \<Rightarrow> new \<in> set opts \<and> toLowerCase new = toLowerCase v)"

section \<open>The tower simulator behind its client (server/tower/client.js)\<close>

text \<open>
  One site of a snapshot. \<open>antenna1\<close> and \<open>antenna2\<close> hold
  \<open>site.antennaN?.service\<close>; \<open>alarms\<close> is the alarm array, empty when the
  property is absent or not an array.
\<close>

record site =
  mains :: "string option"
  siteAlive :: "bool option"
  batteryPercent :: "int option"
  antenna1 :: "string option"
  antenna2 :: "string option"
  alarms :: "string list"

text \<open>
  \<open>state.sites\<close> of a snapshot, as its entries in \<open>Object.entries\<close> order.
\<close>

type_synonym snapshot = "(string \<times> site) list"

text \<open>The two device requests: \<open>POST /power\<close> and \<open>POST /rru\<close>.\<close>

datatype deviceReq =
    Power string string
  | Rru string string string

datatype io =
    Request deviceReq
  | Response "snapshot option"

text \<open>
  The simulator is outside the program. The world holds the wall clock in milliseconds,
  the answers that the coming \<open>GET /state\<close> requests will get (\<open>None\<close> is a
  request that fails after its retries, or a body without \<open>state\<close>), and the
  chronological trace of the requests issued and the answers read so far. The answers are
  arbitrary, so a property proved for every world holds whatever the simulator does.
\<close>

record world =
  clock :: int
  pending :: "snapshot option list"
  trace :: "io list"

definition getState :: "world \<Rightarrow> snapshot option \<times> world" where
  "getState w =
     (case pending w of
        [] \<Rightarrow> (None, w\<lparr> trace := trace w @ [Response None] \<rparr>)
      | r # rs \<Rightarrow> (r, w\<lparr> pending := rs, trace := trace w @ [Response r] \<rparr>))"

text \<open>The result of a device request is discarded by every caller (\<open>.catch(() => null)\<close>).\<close>

definition power :: "string \<Rightarrow> string \<Rightarrow> world \<Rightarrow> world" where
  "power sites st w = w\<lparr> trace := trace w @ [Request (Power sites st)] \<rparr>"

definition rru :: "string \<Rightarrow> string \<Rightarrow> string \<Rightarrow> world \<Rightarrow> world" where
  "rru siteId antenna st w = w\<lparr> trace := trace w @ [Request (Rru siteId antenna st)] \<rparr>"

text \<open>The device requests issued so far.\<close>

definition requestsIn :: "io list \<Rightarrow> deviceReq list" where
  "requestsIn t = concat (map (\<lambda>x. case x of Request r \<Rightarrow> [r] | Response _ \<Rightarrow> []) t)"

definition requests :: "world \<Rightarrow> deviceReq list" where
  "requests w = requestsIn (trace w)"

section \<open>State of the orchestrator and its agents\<close>

datatype status = Idle | Running | Paused | Stopped

record stepArgs =
  argSiteId :: string
  argAntenna :: "string option"

record step =
  action :: string
  args :: stepArgs
  reason :: string

record alarmInfo =
  code :: string
  detail :: string

record approval =
  apId :: string
  apSiteId :: string
  apActions :: "step list"
  apReason :: string
  apCreatedAt :: string

record supervisor =
  status :: status
  startedAt :: "int option"
  runtimeSec :: int
  tasksRouted :: nat
  lastNote :: "string option"
  logs :: "string list"
  approvals :: "approval list"
  nextApprovalId :: nat

text \<open>The fields that the three agent classes share.\<close>

record agent =
  name :: string
  agStatus :: status
  agStartedAt :: "int option"
  agRuntimeSec :: int
  tasks :: nat
  lastTask :: "string option"
  agLogs :: "string list"

text \<open>Agent A (the version with the policy filters and the bus subscription).\<close>

record correlationAgent = agent +
  delegation :: string
  windowMs :: int
  busHandlers :: nat

text \<open>A case of Agent C's casebook. An action is a string or a step object.\<close>

datatype caseAction = ActionText string | ActionStep step

record rcaCase =
  caseTs :: string
  caseSiteId :: string
  cause :: "string option"
  caseActions :: "caseAction list"
  resolution :: string
  ongoing :: bool
  dispatchSuggested :: bool
  summaryLine :: string

record lastRecord =
  lastCause :: string
  lastResolution :: string
  lastTs :: int

record rcaAgent = agent +
  casebook :: "rcaCase list"
  lastBySite :: "(string \<times> lastRecord) list"

text \<open>
  The whole process: the Supervisor, its duplicate ledger (\<open>processed\<close>, a \<open>Map\<close>
  from event id to the time it was seen), the three agent singletons, the stored policy,
  the manual auto toggle of \<open>pipeline.js\<close>, and the world.
\<close>

record system =
  sup :: supervisor
  processed :: "(string \<times> int) list"
  agentA :: correlationAgent
  agentB :: agent
  agentC :: rcaAgent
  pol :: policy
  autoEnabled :: bool
  world :: world

definition safeNowIso :: "runtime \<Rightarrow> system \<Rightarrow> string" where
  "safeNowIso rt s = toISOString rt (clock (world s))"

text \<open>A bounded ring of log lines: push, then drop the oldest above 2000.\<close>

definition pushLog :: "string \<Rightarrow> string list \<Rightarrow> string list" where
  "pushLog line ls = (if length (ls @ [line]) > 2000 then tl (ls @ [line]) else ls @ [line])"

text \<open>
  \<open>_log\<close> of the Supervisor. The writes to the SSE log subscribers, and the
  \<open>broadcast()\<close> of the summary to the snapshot stream, leave the state as it is and
  are not modelled.
\<close>

definition supervisor_log :: "runtime \<Rightarrow> string \<Rightarrow> system \<Rightarrow> system" where
  "supervisor_log rt msg s =
     s\<lparr> sup := (sup s)\<lparr> logs :=
         pushLog (''['' @ safeNowIso rt s @ ''] [SUPERVISOR] '' @ msg) (logs (sup s)) \<rparr> \<rparr>"

text \<open>\<open>note(message)\<close> of the Supervisor.\<close>

definition supervisor_note :: "runtime \<Rightarrow> string \<Rightarrow> system \<Rightarrow> string \<times> system" where
  "supervisor_note rt message s =
     (''OK: noted'',
      supervisor_log rt (''note: '' @ message) (s\<lparr> sup := (sup s)\<lparr> lastNote := Some message \<rparr> \<rparr>))"

text \<open>\<open>supervisorNote(message)\<close> of server/tools/supervisorNote.js, without meta.\<close>

definition supervisorNote :: "runtime \<Rightarrow> string \<Rightarrow> system \<Rightarrow> system" where
  "supervisorNote rt message s = snd (supervisor_note rt message s)"

text \<open>\<open>_log\<close> of an agent, at time \<open>now\<close>.\<close>

definition agent_log :: "runtime \<Rightarrow> int \<Rightarrow> string \<Rightarrow> 'a agent_scheme \<Rightarrow> 'a agent_scheme" where
  "agent_log rt now msg ag =
     ag\<lparr> agLogs := pushLog (''['' @ toISOString rt now @ ''] ['' @ name ag @ ''] '' @ msg) (agLogs ag) \<rparr>"

text \<open>\<open>start()\<close> and \<open>stop()\<close> of Agent B and Agent C.\<close>

definition agent_start :: "runtime \<Rightarrow> int \<Rightarrow> 'a agent_scheme \<Rightarrow> string \<times> 'a agent_scheme" where
  "agent_start rt now ag =
     (if agStatus ag = Running then (''Already running'', ag)
      else (''OK: started'',
            agent_log rt now ''started'' (ag\<lparr> agStatus := Running, agStartedAt := Some now \<rparr>)))"

definition agent_stop :: "runtime \<Rightarrow> int \<Rightarrow> 'a agent_scheme \<Rightarrow> string \<times> 'a agent_scheme" where
  "agent_stop rt now ag =
     (if agStatus ag \<noteq> Running
      then (''OK: stopped'', agent_log rt now ''stopped (no-op)'' (ag\<lparr> agStatus := Stopped \<rparr>))
      else (let delta = (now - orElse (agStartedAt ag) now) div 1000
            in (''OK: stopped'',
                agent_log rt now (''stopped (accumulated '' @ showInt delta @ ''s)'')
                  (ag\<lparr> agRuntimeSec := agRuntimeSec ag + delta,
                      agStartedAt := None,
                      agStatus := Stopped \<rparr>))))"

text \<open>\<open>_sleep(ms)\<close>: the clock advances.\<close>

definition sleep :: "int \<Rightarrow> system \<Rightarrow> system" where
  "sleep ms s = s\<lparr> world := (world s)\<lparr> clock := clock (world s) + ms \<rparr> \<rparr>"

text \<open>\<open>_fetchSite(siteId)\<close> of Agents B and C: \<open>snap?.state?.sites?.[siteId] || null\<close>.\<close>

definition fetchSite :: "string \<Rightarrow> system \<Rightarrow> site option \<times> system" where
  "fetchSite siteId s =
     (case getState (world s) of
        (r, w) \<Rightarrow> ((case r of None \<Rightarrow> None | Some snap \<Rightarrow> map_of snap siteId), s\<lparr> world := w \<rparr>))"

section \<open>Agent B, troubleshooting (server/agents/troubleshooting.js)\<close>

definition MAX_SWEEPS :: nat where "MAX_SWEEPS = 3"
definition MAX_RRU_ATTEMPTS :: nat where "MAX_RRU_ATTEMPTS = 3"
definition RECHECK_MS :: int where "RECHECK_MS = 1200"
definition BOOT_SETTLE_MS :: int where "BOOT_SETTLE_MS = 2500"
definition BETWEEN_ACTION_MS :: int where "BETWEEN_ACTION_MS = 500"

text \<open>What the methods return: \<open>{ ok }\<close> or \<open>{ ok: false, error }\<close>.\<close>

record opResult =
  ok :: bool
  error :: "string option"

text \<open>
  The object that \<open>mitigateSite\<close> returns; a property the branch does not set is
  \<open>None\<close>.
\<close>

record mitigation = opResult +
  plan :: "step list option"
  planAlarms :: "alarmInfo list option"
  siteSeen :: "site option"
  actionsTaken :: "step list option"
  clearedAlarms :: "alarmInfo list option"
  remainingAlarms :: "alarmInfo list option"
  passes :: "nat option"
  allClear :: "bool option"

definition logB :: "runtime \<Rightarrow> string \<Rightarrow> system \<Rightarrow> system" where
  "logB rt msg s = s\<lparr> agentB := agent_log rt (clock (world s)) msg (agentB s) \<rparr>"

definition sendPower :: "string \<Rightarrow> string \<Rightarrow> system \<Rightarrow> system" where
  "sendPower sites st s = s\<lparr> world := power sites st (world s) \<rparr>"

definition sendRru :: "string \<Rightarrow> string \<Rightarrow> string \<Rightarrow> system \<Rightarrow> system" where
  "sendRru siteId antenna st s = s\<lparr> world := rru siteId antenna st (world s) \<rparr>"

text \<open>\<open>_waitAndGet(siteId, tries, ms)\<close>: sleep, read, stop at the first site found.\<close>

fun waitAndGet :: "string \<Rightarrow> nat \<Rightarrow> int \<Rightarrow> system \<Rightarrow> site option \<times> system" where
  "waitAndGet siteId 0 ms s = (None, s)"
| "waitAndGet siteId (Suc n) ms s =
     (case fetchSite siteId (sleep ms s) of
        (Some x, s1) \<Rightarrow> (Some x, s1)
      | (None, s1) \<Rightarrow> waitAndGet siteId n ms s1)"

definition battery :: "site \<Rightarrow> int" where
  "battery st = orElse (batteryPercent st) 100"

definition detectAlarms :: "site option \<Rightarrow> alarmInfo list" where
  "detectAlarms so =
     (case so of
        None \<Rightarrow> []
      | Some st \<Rightarrow>
          (if mains st = Some ''off''
             then [\<lparr> code = ''Mains.Off'', detail = ''Grid power off'' \<rparr>] else []) @
          (if siteAlive st = Some False
             then [\<lparr> code = ''Site.Down'', detail = ''Site not reachable/booting'' \<rparr>] else []) @
          (if antenna1 st = Some ''Unavailable''
             then [\<lparr> code = ''Antenna.A1.Unavailable'', detail = ''A1 RRU/service down'' \<rparr>] else []) @
          (if antenna2 st = Some ''Unavailable''
             then [\<lparr> code = ''Antenna.A2.Unavailable'', detail = ''A2 RRU/service down'' \<rparr>] else []) @
          (if mains st = Some ''off'' \<and> battery st < 40
             then [\<lparr> code = ''Battery.Low.GridDown'',
                     detail = ''Battery '' @ showInt (battery st) @ ''% with grid down'' \<rparr>]
             else []))"

definition hasCode :: "string \<Rightarrow> alarmInfo list \<Rightarrow> bool" where
  "hasCode c as = (\<exists>a \<in> set as. code a = c)"

definition buildPlan :: "string \<Rightarrow> site option \<Rightarrow> alarmInfo list \<times> step list" where
  "buildPlan siteId so =
     (let as = detectAlarms so;
          batt = (case so of None \<Rightarrow> 100 | Some st \<Rightarrow> battery st);
          a1Up = (case so of None \<Rightarrow> False | Some st \<Rightarrow> antenna1 st = Some ''Available'');
          a2Up = (case so of None \<Rightarrow> False | Some st \<Rightarrow> antenna2 st = Some ''Available'');
          mainsOff = (case so of None \<Rightarrow> False | Some st \<Rightarrow> mains st = Some ''off'')
      in (as,
          (if hasCode ''Mains.Off'' as
             then [\<lparr> action = ''power.on'',
                     args = \<lparr> argSiteId = siteId, argAntenna = None \<rparr>,
                     reason = ''Restore grid power'' \<rparr>] else []) @
          (if hasCode ''Antenna.A1.Unavailable'' as
             then [\<lparr> action = ''rru.ensure'',
                     args = \<lparr> argSiteId = siteId, argAntenna = Some ''a1'' \<rparr>,
                     reason = ''Heal A1 to Available'' \<rparr>] else []) @
          (if hasCode ''Antenna.A2.Unavailable'' as
             then [\<lparr> action = ''rru.ensure'',
                     args = \<lparr> argSiteId = siteId, argAntenna = Some ''a2'' \<rparr>,
                     reason = ''Heal A2 to Available'' \<rparr>] else []) @
          (if mainsOff \<and> batt < 40 \<and> a1Up \<and> a2Up
             then [\<lparr> action = ''rru.off'',
                     args = \<lparr> argSiteId = siteId, argAntenna = Some ''a2'' \<rparr>,
                     reason = ''Extend autonomy; keep A1 only'' \<rparr>] else [])))"

text \<open>The service of the antenna that a heal targets: \<open>antenna === 'a1' ? \<dots> : \<dots>\<close>.\<close>

definition serviceOf :: "string \<Rightarrow> site option \<Rightarrow> string option" where
  "serviceOf antenna so =
     (case so of
        None \<Rightarrow> None
      | Some st \<Rightarrow> if antenna = ''a1'' then antenna1 st else antenna2 st)"

text \<open>\<open>s && s.mains === 'on' && !s.siteAlive\<close>: power is back, the site still boots.\<close>

definition booting :: "site option \<Rightarrow> bool" where
  "booting so =
     (case so of None \<Rightarrow> False | Some st \<Rightarrow> mains st = Some ''on'' \<and> siteAlive st \<noteq> Some True)"

text \<open>
  One turn of the loop of \<open>_healRadio\<close>, in its two halves. First half: ON, wait,
  read the site, and wait for the boot when power is back but the site is not alive; it
  returns the site that the check looks at. Second half, when the antenna is still not
  Available: OFF, ON, wait, read again.
\<close>

definition firstCheck :: "runtime \<Rightarrow> string \<Rightarrow> string \<Rightarrow> nat \<Rightarrow> system \<Rightarrow> site option \<times> system" where
  "firstCheck rt siteId antenna attempt s =
     (let s1 = sendRru siteId antenna ''on'' s;
          s2 = logB rt (''RRU ON issued '' @ siteId @ '' '' @ antenna @ '' (attempt '' @
                        showNat attempt @ ''/'' @ showNat MAX_RRU_ATTEMPTS @ '')'') s1;
          s3 = sleep RECHECK_MS s2
      in case fetchSite siteId s3 of (r, s4) \<Rightarrow>
           if booting r
           then (case waitAndGet siteId 3 RECHECK_MS
                        (logB rt (''waiting siteAlive after RRU ON on '' @ siteId @ ellipsis) s4) of
                   (Some x, s5) \<Rightarrow> (Some x, s5)
                 | (None, s5) \<Rightarrow> (r, s5))
           else (r, s4))"

definition resetCheck :: "runtime \<Rightarrow> string \<Rightarrow> string \<Rightarrow> nat \<Rightarrow> system \<Rightarrow> site option \<times> system" where
  "resetCheck rt siteId antenna attempt s =
     (let s6 = sendRru siteId antenna ''off'' s;
          s7 = logB rt (''RRU RESET step (OFF) '' @ siteId @ '' '' @ antenna @
                        '' (attempt '' @ showNat attempt @ '')'') s6;
          s8 = sleep 400 s7;
          s9 = sendRru siteId antenna ''on'' s8;
          s10 = logB rt (''RRU RESET step (ON) '' @ siteId @ '' '' @ antenna @
                         '' (attempt '' @ showNat attempt @ '')'') s9;
          s11 = sleep RECHECK_MS s10
      in fetchSite siteId s11)"

text \<open>The turn: the Boolean tells whether it ended in \<open>return { ok: true }\<close>.\<close>

definition healAttempt :: "runtime \<Rightarrow> string \<Rightarrow> string \<Rightarrow> nat \<Rightarrow> system \<Rightarrow> bool \<times> system" where
  "healAttempt rt siteId antenna attempt s =
     (case firstCheck rt siteId antenna attempt s of
        (r1, s5) \<Rightarrow>
          if serviceOf antenna r1 = Some ''Available'' then (True, s5)
          else (case resetCheck rt siteId antenna attempt s5 of
                  (r2, s12) \<Rightarrow> (serviceOf antenna r2 = Some ''Available'', s12)))"

text \<open>
  The \<open>for\<close> loop of \<open>_healRadio\<close> from turn \<open>attempt\<close> with \<open>n\<close> turns left, and
  the method itself: turns 1 to \<open>MAX_RRU_ATTEMPTS\<close>.
\<close>

fun healLoop :: "runtime \<Rightarrow> string \<Rightarrow> string \<Rightarrow> nat \<Rightarrow> nat \<Rightarrow> system \<Rightarrow> opResult \<times> system" where
  "healLoop rt siteId antenna attempt 0 s =
     (\<lparr> ok = False, error = Some ''rru_unavailable'' \<rparr>,
      logB rt (''RRU HEAL failed '' @ siteId @ '' '' @ antenna @ '' after '' @
               showNat MAX_RRU_ATTEMPTS @ '' attempt(s)'') s)"
| "healLoop rt siteId antenna attempt (Suc n) s =
     (case healAttempt rt siteId antenna attempt s of
        (True, s') \<Rightarrow> (\<lparr> ok = True, error = None \<rparr>, s')
      | (False, s') \<Rightarrow> healLoop rt siteId antenna (attempt + 1) n s')"

definition healRadio :: "runtime \<Rightarrow> string \<Rightarrow> string \<Rightarrow> system \<Rightarrow> opResult \<times> system" where
  "healRadio rt siteId antenna s = healLoop rt siteId antenna 1 MAX_RRU_ATTEMPTS s"

definition applyStep :: "runtime \<Rightarrow> step \<Rightarrow> system \<Rightarrow> opResult \<times> system" where
  "applyStep rt st s =
     (if action st = [] then (\<lparr> ok = True, error = None \<rparr>, s)
      else if action st = ''power.on'' then
        (\<lparr> ok = True, error = None \<rparr>,
         sleep BOOT_SETTLE_MS
           (supervisorNote rt (''Troubleshooting: powered ON '' @ argSiteId (args st))
             (logB rt (''power ON issued for '' @ argSiteId (args st))
               (sendPower (argSiteId (args st)) ''on'' s))))
      else if action st = ''rru.off'' then
        (\<lparr> ok = True, error = None \<rparr>,
         logB rt (''RRU OFF issued '' @ argSiteId (args st) @ '' '' @ String (argAntenna (args st)))
           (sendRru (argSiteId (args st)) (String (argAntenna (args st))) ''off'' s))
      else if action st = ''rru.ensure'' then
        healRadio rt (argSiteId (args st)) (String (argAntenna (args st))) s
      else if action st = ''rru.on'' then
        (\<lparr> ok = True, error = None \<rparr>,
         logB rt (''RRU ON issued '' @ argSiteId (args st) @ '' '' @ String (argAntenna (args st)))
           (sendRru (argSiteId (args st)) (String (argAntenna (args st))) ''on'' s))
      else (\<lparr> ok = True, error = None \<rparr>, s))"

text \<open>\<open>JSON.stringify(step.args)\<close>.\<close>

definition jsonArgs :: "stepArgs \<Rightarrow> string" where
  "jsonArgs a =
     ''{'' @ [CHR 0x22] @ ''siteId'' @ [CHR 0x22] @ '':'' @ jsonString (argSiteId a) @
     (case argAntenna a of
        None \<Rightarrow> []
      | Some x \<Rightarrow> '','' @ [CHR 0x22] @ ''antenna'' @ [CHR 0x22] @ '':'' @ jsonString x) @ ''}''"

definition showBoolOpt :: "bool option \<Rightarrow> string" where
  "showBoolOpt b = (case b of None \<Rightarrow> ''undefined'' | Some x \<Rightarrow> showBool x)"

definition showIntOpt :: "int option \<Rightarrow> string" where
  "showIntOpt i = (case i of None \<Rightarrow> ''undefined'' | Some x \<Rightarrow> showInt x)"

text \<open>The first pass of the E2E branch: apply each step of the plan in order.\<close>

fun firstPass :: "runtime \<Rightarrow> step list \<Rightarrow> step list \<Rightarrow> system \<Rightarrow> step list \<times> system" where
  "firstPass rt [] taken s = (taken, s)"
| "firstPass rt (st # sts) taken s =
     (case applyStep rt st s of
        (_, s1) \<Rightarrow> firstPass rt sts (taken @ [st]) (sleep BETWEEN_ACTION_MS s1))"

text \<open>The heal of each remaining radio alarm inside one sweep.\<close>

fun healSweep :: "runtime \<Rightarrow> string \<Rightarrow> alarmInfo list \<Rightarrow> step list \<Rightarrow> system \<Rightarrow> step list \<times> system" where
  "healSweep rt siteId [] taken s = (taken, s)"
| "healSweep rt siteId (ra # ras) taken s =
     (let antenna = (if contains ''A1'' (code ra) then ''a1'' else ''a2'')
      in case healRadio rt siteId antenna s of
        (res, s1) \<Rightarrow>
          healSweep rt siteId ras
            (taken @ [\<lparr> action = ''rru.ensure'',
                        args = \<lparr> argSiteId = siteId, argAntenna = Some antenna \<rparr>,
                        reason = ''Radio heal sweep'' \<rparr>])
            (sleep BETWEEN_ACTION_MS
              (if \<not> ok res
               then logB rt (''radio heal sweep could not restore '' @ antenna @ '' on '' @ siteId) s1
               else s1)))"

text \<open>
  The \<open>while (pass < MAX_SWEEPS)\<close> loop with \<open>n\<close> sweeps left; it returns the pass
  count, the last site read and the actions taken.
\<close>

fun sweeps :: "runtime \<Rightarrow> string \<Rightarrow> nat \<Rightarrow> nat \<Rightarrow> site \<Rightarrow> step list \<Rightarrow> system
                \<Rightarrow> (nat \<times> site \<times> step list) \<times> system" where
  "sweeps rt siteId 0 pass st taken s = ((pass, st, taken), s)"
| "sweeps rt siteId (Suc n) pass st taken s =
     (case waitAndGet siteId 1 RECHECK_MS s of
        (r, s1) \<Rightarrow>
          (let st1 = orElse r st;
               as = detectAlarms (Some st1);
               radioAlarms = filter (\<lambda>a. take 8 (code a) = ''Antenna.'') as;
               mainsOff = hasCode ''Mains.Off'' as;
               siteDown = hasCode ''Site.Down'' as
           in if \<not> mainsOff \<and> \<not> siteDown \<and> radioAlarms = [] then ((pass + 1, st1, taken), s1)
              else
                (case healSweep rt siteId radioAlarms taken s1 of
                   (taken1, s2) \<Rightarrow>
                     if mainsOff then
                       sweeps rt siteId n (pass + 1) st1
                         (taken1 @ [\<lparr> action = ''power.on'',
                                      args = \<lparr> argSiteId = siteId, argAntenna = None \<rparr>,
                                      reason = ''Sweep retry'' \<rparr>])
                         (sleep BOOT_SETTLE_MS
                           (logB rt (''retry power ON for '' @ siteId @ '' during sweep'')
                             (sendPower siteId ''on'' s2)))
                     else sweeps rt siteId n (pass + 1) st1 taken1 s2)))"

definition isE2E :: "policy \<Rightarrow> bool" where
  "isE2E p \<longleftrightarrow> toLowerCase (waysOfWorking p) = ''e2e automation''"

definition noFields :: "bool \<Rightarrow> string option \<Rightarrow> mitigation" where
  "noFields b e =
     \<lparr> ok = b, error = e, plan = None, planAlarms = None, siteSeen = None, actionsTaken = None,
       clearedAlarms = None, remainingAlarms = None, passes = None, allClear = None \<rparr>"

text \<open>The E2E branch of \<open>mitigateSite\<close>, after the plan is built.\<close>

definition executePlan :: "runtime \<Rightarrow> string \<Rightarrow> site \<Rightarrow> alarmInfo list \<Rightarrow> step list \<Rightarrow> system
                            \<Rightarrow> mitigation \<times> system" where
  "executePlan rt siteId st0 initialAlarms steps s =
     (case firstPass rt steps [] s of (taken0, s1) \<Rightarrow>
      case waitAndGet siteId 2 RECHECK_MS s1 of (r1, s2) \<Rightarrow>
      case (let st1 = orElse r1 st0
            in if mains st1 = Some ''on'' \<and> siteAlive st1 \<noteq> Some True
               then (case waitAndGet siteId 3 (RECHECK_MS + 300)
                            (logB rt (''waiting for '' @ siteId @ '' to fully boot after power on'' @ ellipsis) s2) of
                       (r2, s3) \<Rightarrow> (orElse r2 st1, s3))
               else (st1, s2)) of (st2, s4) \<Rightarrow>
      case sweeps rt siteId MAX_SWEEPS 0 st2 taken0 s4 of ((pass, st3, taken), s5) \<Rightarrow>
      case waitAndGet siteId 2 RECHECK_MS s5 of (r3, s6) \<Rightarrow>
        (let st4 = orElse r3 st3;
             finalAlarms = detectAlarms (Some st4);
             cleared = filter (\<lambda>a0. \<not> hasCode (code a0) finalAlarms) initialAlarms;
             clear = (finalAlarms = []);
             task = ''mitigated '' @ siteId @ '' (mains:'' @ String (mains st4) @ '', alive:'' @
                    showBoolOpt (siteAlive st4) @ '', batt:'' @ showIntOpt (batteryPercent st4) @ ''%)'';
             s7 = logB rt task
                    (s6\<lparr> agentB := (agentB s6)\<lparr> tasks := tasks (agentB s6) + 1, lastTask := Some task \<rparr> \<rparr>);
             s8 = (if clear
                   then supervisorNote rt (''Troubleshooting: '' @ siteId @
                          '' restored and alarms cleared ('' @ showNat (length cleared) @ '' cleared).'') s7
                   else supervisorNote rt (''Troubleshooting: '' @ siteId @
                          '' stabilized; remaining alarms='' @
                          (if join '', '' (map code finalAlarms) = [] then ''none''
                           else join '', '' (map code finalAlarms)) @ ''.'') s7)
         in (\<lparr> ok = True, error = None, plan = None, planAlarms = None, siteSeen = Some st4,
               actionsTaken = Some taken, clearedAlarms = Some cleared,
               remainingAlarms = Some finalAlarms, passes = Some pass, allClear = Some clear \<rparr>,
             s8)))"

text \<open>\<open>mitigateSite(siteId)\<close>.\<close>

definition mitigateSite :: "runtime \<Rightarrow> string \<Rightarrow> system \<Rightarrow> mitigation \<times> system" where
  "mitigateSite rt siteId s =
     (if agStatus (agentB s) \<noteq> Running then (noFields False (Some ''Agent not running''), s)
      else
        (let e2e = isE2E (pol s)
         in case fetchSite siteId s of
              (None, s1) \<Rightarrow>
                (noFields False (Some ''site_not_found''),
                 logB rt (''mitigate: site '' @ siteId @ '' not found'') s1)
            | (Some st, s1) \<Rightarrow>
                (let s2 = logB rt (''mitigate: start '' @ siteId @ '' (mains='' @ String (mains st) @
                            '', alive='' @ showBoolOpt (siteAlive st) @ '', batt='' @
                            showIntOpt (batteryPercent st) @ ''%, policy.wow='' @ [CHR 0x22] @
                            waysOfWorking (pol s) @ [CHR 0x22] @ '')'') s1
                 in case buildPlan siteId (Some st) of
                      (initialAlarms, steps) \<Rightarrow>
                        if \<not> e2e then
                          (let planText = join newline
                                 (map (\<lambda>x. ''- '' @ action x @ '' '' @ jsonArgs (args x) @ '' | '' @ reason x) steps);
                               s3 = supervisorNote rt
                                      (''Troubleshooting (HITL): Proposed plan for '' @ siteId @ '':'' @ newline @
                                       (if planText = [] then ''(no actions needed)'' else planText)) s2;
                               s4 = logB rt (''policy HITL '' @ arrow @ '' approval required for '' @ siteId @
                                             '', '' @ showNat (length steps) @ '' step(s)'') s3
                           in ((noFields False (Some ''approval_required''))
                                 \<lparr> plan := Some steps, planAlarms := Some initialAlarms, siteSeen := Some st \<rparr>,
                               s4))
                        else executePlan rt siteId st initialAlarms steps s2)))"

section \<open>Agent C, RCA and documentation (server/agents/rca.js)\<close>

definition NOISE_CAUSES :: "string list" where
  "NOISE_CAUSES = [''unknown'', ''heartbeat'', ''noop'']"

definition DEDUP_WINDOW_MS :: int where "DEDUP_WINDOW_MS = 10000"

text \<open>\<open>_isNoise({ siteId, cause })\<close>.\<close>

definition isNoise :: "string \<Rightarrow> string option \<Rightarrow> bool" where
  "isNoise siteId c \<longleftrightarrow>
     siteId = [] \<or> siteId = ''unknown'' \<or> toLowerCase (strOr c []) \<in> set NOISE_CAUSES"

text \<open>
  \<open>_dedup(siteId, cause, resolution)\<close> at time \<open>now\<close>: true, with the map untouched,
  for a repeat inside the window; otherwise the entry of the site is replaced.
\<close>

definition dedup :: "string \<Rightarrow> string \<Rightarrow> string \<Rightarrow> int \<Rightarrow> rcaAgent \<Rightarrow> bool \<times> rcaAgent" where
  "dedup siteId c r now ag =
     (case map_of (lastBySite ag) siteId of
        Some l \<Rightarrow>
          if lastCause l = c \<and> lastResolution l = r \<and> now - lastTs l < DEDUP_WINDOW_MS
          then (True, ag)
          else (False, ag\<lparr> lastBySite :=
                 AList.update siteId \<lparr> lastCause = c, lastResolution = r, lastTs = now \<rparr> (lastBySite ag) \<rparr>)
      | None \<Rightarrow>
          (False, ag\<lparr> lastBySite :=
             AList.update siteId \<lparr> lastCause = c, lastResolution = r, lastTs = now \<rparr> (lastBySite ag) \<rparr>))"

definition detectAlarmsFromSite :: "site option \<Rightarrow> string list" where
  "detectAlarmsFromSite so =
     (case so of
        None \<Rightarrow> []
      | Some st \<Rightarrow>
          (if mains st = Some ''off'' then [''Mains.Off''] else []) @
          (if siteAlive st = Some False then [''Site.Down''] else []) @
          (if antenna1 st = Some ''Unavailable'' then [''Antenna.A1.Unavailable''] else []) @
          (if antenna2 st = Some ''Unavailable'' then [''Antenna.A2.Unavailable''] else []))"

text \<open>The four status words that the summary line and the email show.\<close>

definition mainsWord :: "site option \<Rightarrow> string" where
  "mainsWord so = (case so of None \<Rightarrow> ''n/a'' | Some st \<Rightarrow> orElse (mains st) ''n/a'')"

definition aliveWord :: "site option \<Rightarrow> string" where
  "aliveWord so =
     (case so of
        None \<Rightarrow> ''n/a''
      | Some st \<Rightarrow> if siteAlive st = Some True then ''up''
                  else if siteAlive st = Some False then ''down'' else ''n/a'')"

definition a1Word :: "site option \<Rightarrow> string" where
  "a1Word so = (case so of None \<Rightarrow> ''n/a'' | Some st \<Rightarrow> orElse (antenna1 st) ''n/a'')"

definition a2Word :: "site option \<Rightarrow> string" where
  "a2Word so = (case so of None \<Rightarrow> ''n/a'' | Some st \<Rightarrow> orElse (antenna2 st) ''n/a'')"

definition buildSummaryLine :: "string \<Rightarrow> string option \<Rightarrow> string \<Rightarrow> site option \<Rightarrow> string list \<Rightarrow> string" where
  "buildSummaryLine siteId c r so as =
     ''Site '' @ siteId @ '': cause='' @ String c @ '' '' @ bullet @ '' resolution='' @ r @
     '' '' @ bullet @ '' mains='' @ mainsWord so @ '' '' @ bullet @ '' cell='' @ aliveWord so @
     '' '' @ bullet @ '' A1='' @ a1Word so @ '' '' @ bullet @ '' A2='' @ a2Word so @
     '' '' @ bullet @ '' '' @
     (if as = [] then ''alarms=none'' else ''alarms=['' @ join '', '' as @ '']'')"

text \<open>What \<open>recordIncident\<close> returns: a skip with its reason, or the recorded case.\<close>

datatype recordResult = Skipped string | Recorded rcaCase

definition emDash :: string where
  "emDash = [CHR 0xE2, CHR 0x80, CHR 0x94]"

definition logC :: "runtime \<Rightarrow> string \<Rightarrow> system \<Rightarrow> system" where
  "logC rt msg s = s\<lparr> agentC := agent_log rt (clock (world s)) msg (agentC s) \<rparr>"

definition recordIncident :: "runtime \<Rightarrow> string \<Rightarrow> string option \<Rightarrow> caseAction list \<Rightarrow> string \<Rightarrow> system
                                \<Rightarrow> recordResult \<times> system" where
  "recordIncident rt siteId c acts r s =
     (let s1 = (if agStatus (agentC s) \<noteq> Running
                then s\<lparr> agentC := snd (agent_start rt (clock (world s)) (agentC s)) \<rparr>
                else s)
      in if isNoise siteId c then (Skipped ''noise_or_unknown'', s1)
         else
           (case dedup siteId (String c) r (clock (world s1)) (agentC s1) of
              (True, ag) \<Rightarrow> (Skipped ''dedup_suppressed'', s1\<lparr> agentC := ag \<rparr>)
            | (False, ag) \<Rightarrow>
                (case fetchSite siteId (s1\<lparr> agentC := ag \<rparr>) of
                   (so, s2) \<Rightarrow>
                     (let as = detectAlarmsFromSite so;
                          og = (r \<noteq> ''restored'' \<or> as \<noteq> []);
                          item = \<lparr> caseTs = safeNowIso rt s2, caseSiteId = siteId, cause = c,
                                   caseActions = acts, resolution = r, ongoing = og,
                                   dispatchSuggested = og,
                                   summaryLine = buildSummaryLine siteId c r so as \<rparr>;
                          s3 = (if dispatchSuggested item
                                then supervisorNote rt (''RCA: Dispatch suggested for '' @ siteId @
                                       '' ('' @ summaryLine item @ '')'') s2
                                else supervisorNote rt (''RCA: '' @ siteId @ '' resolved '' @ emDash @
                                       '' '' @ summaryLine item) s2);
                          task = ''RCA recorded '' @ siteId @ '' (resolution='' @ r @ '', dispatch='' @
                                 showBool (dispatchSuggested item) @ '')'';
                          s4 = s3\<lparr> agentC := (agentC s3)
                                 \<lparr> casebook := casebook (agentC s3) @ [item],
                                   tasks := tasks (agentC s3) + 1,
                                   lastTask := Some task \<rparr> \<rparr>
                      in (Recorded item, logC rt task s4)))))"

text \<open>The object that \<open>composeDispatchEmail\<close> returns.\<close>

record email = opResult +
  subject :: "string option"
  body :: "string option"

definition actionLine :: "caseAction \<Rightarrow> string" where
  "actionLine a =
     (case a of
        ActionText t \<Rightarrow> ''- '' @ t
      | ActionStep st \<Rightarrow>
          ''- '' @ (if action st = [] then ''action'' else action st) @ '' '' @ jsonArgs (args st) @
          '' '' @ (if reason st = [] then [] else ''| '' @ reason st))"

definition composeDispatchEmail :: "string \<Rightarrow> system \<Rightarrow> email \<times> system" where
  "composeDispatchEmail siteId s =
     (case List.find (\<lambda>c. caseSiteId c = siteId \<and> \<not> isNoise (caseSiteId c) (cause c))
                     (rev (casebook (agentC s))) of
        None \<Rightarrow> (\<lparr> ok = False, error = Some ''no_unresolved_case'', subject = None, body = None \<rparr>, s)
      | Some latest \<Rightarrow>
          if \<not> dispatchSuggested latest
          then (\<lparr> ok = False, error = Some ''no_unresolved_case'', subject = None, body = None \<rparr>, s)
          else
            (case fetchSite siteId s of
               (so, s1) \<Rightarrow>
                 (let as = detectAlarmsFromSite so;
                      batt = (case so of None \<Rightarrow> ''n/a''
                              | Some st \<Rightarrow> (case batteryPercent st of None \<Rightarrow> ''n/a'' | Some b \<Rightarrow> showInt b));
                      actionsTxt = join newline (map actionLine (caseActions latest));
                      subj = ''[DISPATCH] '' @ siteId @ '' '' @ enDash @ '' '' @
                             strOr (cause latest) ''Degradation'' @ '' '' @ enDash @ '' Action required'';
                      bod = ''Site: '' @ siteId @ newline @
                            ''When: '' @ caseTs latest @ newline @
                            ''Current status: mains='' @ mainsWord so @ '', cell='' @ aliveWord so @
                            '', A1='' @ a1Word so @ '', A2='' @ a2Word so @ '', battery='' @ batt @ ''%'' @ newline @
                            ''Open alarms: '' @ (if as = [] then ''none detected'' else join '', '' as) @ newline @
                            newline @
                            ''Actions taken so far:'' @ newline @
                            (if actionsTxt = [] then ''- none recorded'' else actionsTxt) @ newline @
                            newline @
                            ''Requested next step:'' @ newline @
                            ''- Field dispatch to investigate/restore service.'' @ newline @
                            ''- Please check grid power, site access, RRUs, and backhaul as applicable.'' @ newline @
                            newline @
                            ''Summary:'' @ newline @
                            summaryLine latest @ newline @
                            newline @
                            ''Thank you,'' @ newline @
                            ''Supervisor''
                  in (\<lparr> ok = True, error = None, subject = Some subj, body = Some bod \<rparr>, s1))))"

section \<open>Alarm filters (server/utils/policy.js) and Agent A, correlation\<close>

text \<open>
  The sources hold two copies of \<open>server/agents/correlationAgent.js\<close>. Agent A is
  modelled from the one that subscribes to the incident bus, keeps \<open>windowMs\<close> and
  filters by \<open>isNoiseAlarm\<close> and \<open>isCriticalAlarm\<close> (the copy in
  \<open>unnamed/part_007\<close>). The batch mode of the other copy, which has no bus
  subscription and no filter, is \<open>legacyCorrelate\<close> at the end of this section.
\<close>

definition CRITICAL_PATTERNS :: "string list" where
  "CRITICAL_PATTERNS = [''ServiceUnavailable'', ''HeartbeatFailure'', ''MainsFailure'']"

definition NOISE_ALARMS :: "string list" where
  "NOISE_ALARMS = [''unknown'', ''heartbeat'', ''noop'']"

text \<open>
  \<open>rx.test(s)\<close> for a pattern of letters with the flag \<open>i\<close>: the pattern occurs in
  \<open>s\<close>, cases ignored.
\<close>

definition isCriticalAlarm :: "string option \<Rightarrow> bool" where
  "isCriticalAlarm a \<longleftrightarrow>
     truthy a \<and> (\<exists>p \<in> set CRITICAL_PATTERNS. contains (toLowerCase p) (toLowerCase (String a)))"

definition isNoiseAlarm :: "string option \<Rightarrow> bool" where
  "isNoiseAlarm a \<longleftrightarrow> toLowerCase (strOr a []) \<in> set NOISE_ALARMS"

text \<open>An event as \<open>correlate\<close> reads it, and an incident as it returns it.\<close>

record corrEvent =
  ceSiteId :: "string option"
  ceType :: "string option"
  ceAlarm :: "string option"
  ceTimestamp :: "string option"

record incident =
  incSiteId :: "string option"
  incStart :: "string option"
  incEnd :: "string option"
  incCount :: nat
  incTypes :: "string option list"
  incEvents :: "corrEvent list"

text \<open>\<open>start()\<close> of Agent A; the handler it attaches to the bus is never detached.\<close>

definition agentA_start :: "runtime \<Rightarrow> int \<Rightarrow> correlationAgent \<Rightarrow> string \<times> correlationAgent" where
  "agentA_start rt now a =
     (if agStatus a = Running then (''Already running'', a)
      else
        (let a1 = (if delegation a \<noteq> ''disabled''
                   then agent_log rt now ''delegation disabled (policy enforced)''
                          (a\<lparr> delegation := ''disabled'' \<rparr>)
                   else a);
             a2 = a1\<lparr> agStatus := Running, agStartedAt := Some now, windowMs := 5 * 60 * 1000,
                     busHandlers := busHandlers a1 + 1 \<rparr>
         in (''OK: started'', agent_log rt now ''started (listening to incident bus)'' a2)))"

text \<open>The filter of the batch mode: the event is kept.\<close>

definition policyMode :: "policy \<Rightarrow> string" where
  "policyMode p =
     (if toLowerCase (alarmPrioritization p) = [] then ''critical first''
      else toLowerCase (alarmPrioritization p))"

definition eventCode :: "corrEvent \<Rightarrow> string" where
  "eventCode e = strOr (orStr (ceType e) (ceAlarm e)) ''unknown''"

definition keeps :: "policy \<Rightarrow> corrEvent \<Rightarrow> bool" where
  "keeps p e \<longleftrightarrow>
     \<not> (orElse (ceSiteId e) ''unknown'' = [] \<or> orElse (ceSiteId e) ''unknown'' = ''unknown'') \<and>
     \<not> isNoiseAlarm (Some (eventCode e)) \<and>
     \<not> (policyMode p = ''critical first'' \<and> \<not> isCriticalAlarm (Some (eventCode e)))"

text \<open>The \<open>Map\<close> from site to its events, keys in order of first appearance.\<close>

definition groupBySite :: "corrEvent list \<Rightarrow> (string option \<times> corrEvent list) list" where
  "groupBySite es =
     fold (\<lambda>e m. AList.update (ceSiteId e)
                    (case map_of m (ceSiteId e) of None \<Rightarrow> [e] | Some l \<Rightarrow> l @ [e]) m) es []"

text \<open>
  \<open>list.sort((a, b) => new Date(a.timestamp) - new Date(b.timestamp))\<close> as a stable
  insertion sort: an element moves in front of the elements whose time is strictly later.
  A comparison with an invalid date gives \<open>NaN\<close>, which the sort reads as equal; where
  that makes the comparator inconsistent the engine's order is implementation-defined, and
  the model's order is one of the possible ones.
\<close>

definition before :: "runtime \<Rightarrow> corrEvent \<Rightarrow> corrEvent \<Rightarrow> bool" where
  "before rt a b =
     (case (parseDate rt (ceTimestamp a), parseDate rt (ceTimestamp b)) of
        (Some x, Some y) \<Rightarrow> x < y
      | _ \<Rightarrow> False)"

fun insertByTime :: "runtime \<Rightarrow> corrEvent \<Rightarrow> corrEvent list \<Rightarrow> corrEvent list" where
  "insertByTime rt x [] = [x]"
| "insertByTime rt x (y # ys) = (if before rt y x then y # insertByTime rt x ys else x # y # ys)"

definition sortByTime :: "runtime \<Rightarrow> corrEvent list \<Rightarrow> corrEvent list" where
  "sortByTime rt es = foldr (insertByTime rt) es []"

definition newIncident :: "string option \<Rightarrow> corrEvent \<Rightarrow> incident" where
  "newIncident st ev =
     \<lparr> incSiteId = st, incStart = ceTimestamp ev, incEnd = ceTimestamp ev, incCount = 1,
       incTypes = [orStr (ceType ev) (ceAlarm ev)], incEvents = [ev] \<rparr>"

text \<open>\<open>t - last <= WINDOW_MS\<close>, false when either date is invalid.\<close>

definition withinWindow :: "runtime \<Rightarrow> int \<Rightarrow> string option \<Rightarrow> string option \<Rightarrow> bool" where
  "withinWindow rt w t l =
     (case (parseDate rt t, parseDate rt l) of
        (Some x, Some y) \<Rightarrow> x - y \<le> w
      | _ \<Rightarrow> False)"

text \<open>The window loop over one site's sorted events, \<open>PUSH\<close> included.\<close>

fun windowLoop :: "runtime \<Rightarrow> int \<Rightarrow> string option \<Rightarrow> corrEvent list \<Rightarrow> incident option
                    \<Rightarrow> incident list \<Rightarrow> incident list" where
  "windowLoop rt w st [] cur acc = (case cur of None \<Rightarrow> acc | Some c \<Rightarrow> acc @ [c])"
| "windowLoop rt w st (ev # evs) cur acc =
     (case cur of
        None \<Rightarrow> windowLoop rt w st evs (Some (newIncident st ev)) acc
      | Some c \<Rightarrow>
          if withinWindow rt w (ceTimestamp ev) (incEnd c)
          then windowLoop rt w st evs
                 (Some (c\<lparr> incEnd := ceTimestamp ev, incCount := incCount c + 1,
                           incTypes := setAdd (orStr (ceType ev) (ceAlarm ev)) (incTypes c),
                           incEvents := incEvents c @ [ev] \<rparr>)) acc
          else windowLoop rt w st evs (Some (newIncident st ev)) (acc @ [c]))"

definition correlateIncidents :: "runtime \<Rightarrow> policy \<Rightarrow> int \<Rightarrow> corrEvent list \<Rightarrow> incident list" where
  "correlateIncidents rt p w events =
     fold (\<lambda>(st, l) acc. windowLoop rt w st (sortByTime rt l) None acc)
          (groupBySite (filter (keeps p) events)) []"

text \<open>\<open>correlate(events)\<close> of the agent: the incidents, and the task counter and log.\<close>

definition correlate :: "runtime \<Rightarrow> corrEvent list \<Rightarrow> system \<Rightarrow> incident list \<times> system" where
  "correlate rt events s =
     (let incidents = correlateIncidents rt (pol s) (windowMs (agentA s)) events;
          task = ''correlated '' @ showNat (length (filter (keeps (pol s)) events)) @ '' events '' @
                 arrow @ '' '' @ showNat (length incidents) @ '' incidents''
      in (incidents,
          s\<lparr> agentA := agent_log rt (clock (world s)) task
                ((agentA s)\<lparr> tasks := tasks (agentA s) + 1, lastTask := Some task \<rparr>) \<rparr>))"

text \<open>
  \<open>correlate(events)\<close> of the copy without the filter: the key of an event is
  \<open>e.siteId ?? 'unknown'\<close>, the window is the constant five minutes, and the loop
  starts from an empty incident that it fills while its \<open>start\<close> is falsy.
\<close>

definition legacyGroupBySite :: "corrEvent list \<Rightarrow> (string \<times> corrEvent list) list" where
  "legacyGroupBySite es =
     fold (\<lambda>e m. AList.update (orElse (ceSiteId e) ''unknown'')
                    (case map_of m (orElse (ceSiteId e) ''unknown'') of None \<Rightarrow> [e] | Some l \<Rightarrow> l @ [e]) m)
          es []"

fun legacyWindowLoop :: "runtime \<Rightarrow> corrEvent list \<Rightarrow> incident \<Rightarrow> incident list \<Rightarrow> incident list" where
  "legacyWindowLoop rt [] cur acc = (if incCount cur > 0 then acc @ [cur] else acc)"
| "legacyWindowLoop rt (ev # evs) cur acc =
     (if \<not> truthy (incStart cur)
      then legacyWindowLoop rt evs
             (cur\<lparr> incStart := ceTimestamp ev, incEnd := ceTimestamp ev, incCount := 1,
                   incTypes := setAdd (ceType ev) (incTypes cur),
                   incEvents := incEvents cur @ [ev] \<rparr>) acc
      else if withinWindow rt (5 * 60 * 1000) (ceTimestamp ev) (incEnd cur)
      then legacyWindowLoop rt evs
             (cur\<lparr> incEnd := ceTimestamp ev, incCount := incCount cur + 1,
                   incTypes := setAdd (ceType ev) (incTypes cur),
                   incEvents := incEvents cur @ [ev] \<rparr>) acc
      else legacyWindowLoop rt evs
             \<lparr> incSiteId = incSiteId cur, incStart = ceTimestamp ev, incEnd = ceTimestamp ev,
               incCount = 1, incTypes = [ceType ev], incEvents = [ev] \<rparr>
             (acc @ [cur]))"

definition legacyCorrelate :: "runtime \<Rightarrow> corrEvent list \<Rightarrow> incident list" where
  "legacyCorrelate rt events =
     fold (\<lambda>(st, l) acc.
             legacyWindowLoop rt (sortByTime rt l)
               \<lparr> incSiteId = Some st, incStart = None, incEnd = None, incCount = 0,
                 incTypes = [], incEvents = [] \<rparr> acc)
          (legacyGroupBySite events) []"
section \<open>Incident bus (server/bus/incidentBus.js) and delta emitter (server/bus/deltaEmitter.js)\<close>

text \<open>
  A bus event with the properties that the emitters set and the consumers read.
  \<open>None\<close> is a property that is absent; \<open>null\<close> is not told apart from it.
\<close>

record busEvent =
  evType :: "string option"
  evSiteId :: "string option"
  evAlarm :: "string option"
  evTimestamp :: "string option"
  evTs :: "string option"
  evAntenna :: "string option"
  evFrom :: "string option"
  evTo :: "string option"
  evSource :: "string option"
  evBootstrap :: bool

text \<open>
  The bus is a Node \<open>EventEmitter\<close>: \<open>on(channel, listener)\<close> appends a registration,
  \<open>emit(channel, payload)\<close> calls the listeners registered on exactly that channel, in
  registration order. The listeners of the program are the ring buffer of incidentBus.js,
  the three console taps and the event handler of supervisor/store.js, and the handler
  that each \<open>start()\<close> of Agent A attaches.
\<close>

datatype listener = BusBuffer | AlarmTap | SupervisorHandleEvent | AgentAOnIncident

type_synonym registry = "(string \<times> listener) list"

definition listenersOn :: "string \<Rightarrow> registry \<Rightarrow> listener list" where
  "listenersOn channel reg = map snd (filter (\<lambda>(c, l). c = channel) reg)"

text \<open>incidentBus.js at load: \<open>incidentBus.on('event', \<dots>)\<close> for the ring buffer.\<close>

definition incidentBusWiring :: registry where
  "incidentBusWiring = [(''event'', BusBuffer)]"

text \<open>
  supervisor/store.js at load: the taps of \<open>wireAlarmTapOnce\<close>, then
  \<open>onIncident(async (evt) => { await handleEvent(evt) })\<close> with
  \<open>onIncident = (cb) => incidentBus.on('bus.event', cb)\<close>.
\<close>

definition supervisorOnIncident :: "listener \<Rightarrow> registry" where
  "supervisorOnIncident cb = [(''bus.event'', cb)]"

definition supervisorWiring :: registry where
  "supervisorWiring =
     [(''alarm.raised'', AlarmTap), (''alarm.cleared'', AlarmTap), (''service.changed'', AlarmTap)] @
     supervisorOnIncident SupervisorHandleEvent"

text \<open>\<open>onIncident(listener)\<close> of incidentBus.js, which Agent A uses: the channel \<open>event\<close>.\<close>

definition busOnIncident :: "listener \<Rightarrow> registry" where
  "busOnIncident cb = [(''event'', cb)]"

text \<open>The registrations of a running process in which Agent A was started \<open>n\<close> times.\<close>

definition wiring :: "nat \<Rightarrow> registry" where
  "wiring n = incidentBusWiring @ supervisorWiring @ concat (replicate n (busOnIncident AgentAOnIncident))"

text \<open>
  \<open>incidentBus.emit(channel, evt)\<close>: the deliveries, each a listener with the event it
  is called with. \<open>publish(evt)\<close> of incidentBus.js, the bridge's \<open>emitBusEvent\<close>
  and the second emit of \<open>#emitBoth\<close> all are \<open>incidentBus.emit('event', evt)\<close>.
\<close>

definition emit :: "string \<Rightarrow> busEvent \<Rightarrow> registry \<Rightarrow> (listener \<times> busEvent) list" where
  "emit channel evt reg = map (\<lambda>l. (l, evt)) (listenersOn channel reg)"

definition publish :: "busEvent \<Rightarrow> registry \<Rightarrow> (listener \<times> busEvent) list" where
  "publish evt reg = emit ''event'' evt reg"

text \<open>The deliveries that a sequence of emissions causes.\<close>

definition deliveries :: "registry \<Rightarrow> (string \<times> busEvent) list \<Rightarrow> (listener \<times> busEvent) list" where
  "deliveries reg ems = concat (map (\<lambda>(c, e). emit c e reg) ems)"

text \<open>
  \<open>#emitBoth(type, payload)\<close>: the typed channel first, then the envelope on
  \<open>event\<close>. An emission is the channel with the payload.
\<close>

definition emitBoth :: "string \<Rightarrow> busEvent \<Rightarrow> (string \<times> busEvent) list" where
  "emitBoth ty payload = [(ty, payload), (''event'', payload\<lparr> evType := Some ty \<rparr>)]"

record deltaEmitter =
  bootstrapEmit :: bool
  lastAlarmsBySite :: "(string \<times> string list) list option"
  lastServiceBySite :: "(string \<times> (string option \<times> string option)) list option"

text \<open>
  The compact views. An object's keys iterate in \<open>Object.entries\<close> order, which the
  snapshot's entry list already is; a \<open>Set\<close> iterates in insertion order.
\<close>

definition extractAlarmsBySite :: "snapshot \<Rightarrow> (string \<times> string list) list" where
  "extractAlarmsBySite st = fold (\<lambda>(k, x) out. AList.update k (uniq (alarms x)) out) st []"

definition extractServiceBySite :: "snapshot \<Rightarrow> (string \<times> (string option \<times> string option)) list" where
  "extractServiceBySite st = fold (\<lambda>(k, x) out. AList.update k (antenna1 x, antenna2 x) out) st []"

definition alarmPayload :: "string \<Rightarrow> string \<Rightarrow> string \<Rightarrow> bool \<Rightarrow> busEvent" where
  "alarmPayload siteId a ts boot =
     \<lparr> evType = None, evSiteId = Some siteId, evAlarm = Some a, evTimestamp = None, evTs = Some ts,
       evAntenna = None, evFrom = None, evTo = None, evSource = Some ''delta'', evBootstrap = boot \<rparr>"

definition servicePayload :: "string \<Rightarrow> string \<Rightarrow> string option \<Rightarrow> string option \<Rightarrow> string \<Rightarrow> busEvent" where
  "servicePayload siteId ant f t ts =
     \<lparr> evType = None, evSiteId = Some siteId, evAlarm = None, evTimestamp = None, evTs = Some ts,
       evAntenna = Some ant, evFrom = f, evTo = t, evSource = Some ''delta'', evBootstrap = False \<rparr>"

text \<open>The emissions of one site in the alarm loop: the raised ones, then the cleared ones.\<close>

definition alarmDeltas :: "string \<Rightarrow> (string \<times> string list) list \<Rightarrow> (string \<times> string list) list
                            \<Rightarrow> string \<Rightarrow> (string \<times> busEvent) list" where
  "alarmDeltas ts prev cur siteId =
     (let prevSet = orElse (map_of prev siteId) [];
          nextSet = orElse (map_of cur siteId) []
      in concat (map (\<lambda>a. emitBoth ''alarm.raised'' (alarmPayload siteId a ts False))
                     (filter (\<lambda>a. a \<notin> set prevSet) nextSet)) @
         concat (map (\<lambda>a. emitBoth ''alarm.cleared'' (alarmPayload siteId a ts False))
                     (filter (\<lambda>a. a \<notin> set nextSet) prevSet)))"

text \<open>The emissions of one site in the service loop.\<close>

definition serviceDeltas :: "string \<Rightarrow> (string \<times> (string option \<times> string option)) list
                              \<Rightarrow> (string \<times> (string option \<times> string option)) list
                              \<Rightarrow> string \<Rightarrow> (string \<times> busEvent) list" where
  "serviceDeltas ts prev cur siteId =
     (let p = orElse (map_of prev siteId) (None, None);
          n = orElse (map_of cur siteId) (None, None)
      in (if fst p \<noteq> fst n
          then emitBoth ''service.changed'' (servicePayload siteId ''antenna1'' (fst p) (fst n) ts)
          else []) @
         (if snd p \<noteq> snd n
          then emitBoth ''service.changed'' (servicePayload siteId ''antenna2'' (snd p) (snd n) ts)
          else []))"

text \<open>
  \<open>ingest(newState)\<close>; \<open>ts\<close> is the value of \<open>new Date().toISOString()\<close> that the
  call reads in its first line. The result is the emissions in order and the emitter
  afterwards.
\<close>

definition ingest :: "string \<Rightarrow> snapshot \<Rightarrow> deltaEmitter \<Rightarrow> (string \<times> busEvent) list \<times> deltaEmitter" where
  "ingest ts newState de =
     (let curAlarms = extractAlarmsBySite newState;
          curService = extractServiceBySite newState;
          de' = de\<lparr> lastAlarmsBySite := Some curAlarms, lastServiceBySite := Some curService \<rparr>
      in case (lastAlarmsBySite de, lastServiceBySite de) of
           (Some prevAlarms, Some prevService) \<Rightarrow>
             (concat (map (alarmDeltas ts prevAlarms curAlarms)
                          (uniq (map fst prevAlarms @ map fst curAlarms))) @
              concat (map (serviceDeltas ts prevService curService)
                          (uniq (map fst prevService @ map fst curService))),
              de')
         | _ \<Rightarrow>
             ((if bootstrapEmit de
               then concat (map (\<lambda>(siteId, alarmsSet).
                              concat (map (\<lambda>a. emitBoth ''alarm.raised'' (alarmPayload siteId a ts True))
                                          alarmsSet))
                            curAlarms)
               else []),
              de'))"

text \<open>The events that reach the normalized channel \<open>event\<close>, in order.\<close>

definition onEventChannel :: "(string \<times> busEvent) list \<Rightarrow> busEvent list" where
  "onEventChannel ems = map snd (filter (\<lambda>(c, e). c = ''event'') ems)"

section \<open>Supervisor (server/supervisor/store.js)\<close>

definition autoEffective :: "system \<Rightarrow> bool" where
  "autoEffective s \<longleftrightarrow> isE2E (pol s) \<or> autoEnabled s"

text \<open>\<open>ensureAgentsRunning()\<close> and \<open>ensureAgentsStopped()\<close>.\<close>

definition startA :: "runtime \<Rightarrow> system \<Rightarrow> system" where
  "startA rt s =
     (if agStatus (agentA s) \<noteq> Running
      then s\<lparr> agentA := snd (agentA_start rt (clock (world s)) (agentA s)) \<rparr> else s)"

definition startB :: "runtime \<Rightarrow> system \<Rightarrow> system" where
  "startB rt s =
     (if agStatus (agentB s) \<noteq> Running
      then s\<lparr> agentB := snd (agent_start rt (clock (world s)) (agentB s)) \<rparr> else s)"

definition startC :: "runtime \<Rightarrow> system \<Rightarrow> system" where
  "startC rt s =
     (if agStatus (agentC s) \<noteq> Running
      then s\<lparr> agentC := snd (agent_start rt (clock (world s)) (agentC s)) \<rparr> else s)"

definition ensureAgentsRunning :: "runtime \<Rightarrow> system \<Rightarrow> system" where
  "ensureAgentsRunning rt s = startC rt (startB rt (startA rt s))"

definition ensureAgentsStopped :: "runtime \<Rightarrow> system \<Rightarrow> system" where
  "ensureAgentsStopped rt s =
     s\<lparr> agentA := snd (agent_stop rt (clock (world s)) (agentA s)),
        agentB := snd (agent_stop rt (clock (world s)) (agentB s)),
        agentC := snd (agent_stop rt (clock (world s)) (agentC s)) \<rparr>"

text \<open>
  The seconds since \<open>startedAt\<close>:
  \<open>Math.max(0, Math.floor((Date.now() - (startedAt?.getTime() || Date.now())) / 1000))\<close>.
\<close>

definition elapsedSec :: "system \<Rightarrow> int" where
  "elapsedSec s =
     (let now = clock (world s);
          t0 = (case startedAt (sup s) of None \<Rightarrow> now | Some t \<Rightarrow> if t = 0 then now else t)
      in max 0 ((now - t0) div 1000))"

text \<open>
  The lifecycle commands return their message. \<open>ensureAgentsStopped()\<close> and
  \<open>ensureAgentsRunning()\<close> are not awaited by the source; the model runs them to their
  end before the command returns.
\<close>

definition stop :: "runtime \<Rightarrow> system \<Rightarrow> string \<times> system" where
  "stop rt s =
     (let s1 = (if status (sup s) = Running \<or> status (sup s) = Paused
                then s\<lparr> sup := (sup s)\<lparr> runtimeSec := runtimeSec (sup s) + elapsedSec s \<rparr> \<rparr>
                else s);
          s2 = s1\<lparr> sup := (sup s1)\<lparr> startedAt := None, status := Stopped \<rparr> \<rparr>
      in (''OK: stopped'', supervisor_log rt ''stopped'' (ensureAgentsStopped rt s2)))"

definition pause :: "runtime \<Rightarrow> system \<Rightarrow> string \<times> system" where
  "pause rt s =
     (if status (sup s) \<noteq> Running then (''Not running'', s)
      else (''OK: paused'',
            supervisor_log rt ''paused''
              (s\<lparr> sup := (sup s)\<lparr> runtimeSec := runtimeSec (sup s) + elapsedSec s,
                                  startedAt := None,
                                  status := Paused \<rparr> \<rparr>)))"

definition resume :: "runtime \<Rightarrow> system \<Rightarrow> string \<times> system" where
  "resume rt s =
     (if status (sup s) \<noteq> Paused then (''Not paused'', s)
      else (''OK: resumed'',
            ensureAgentsRunning rt
              (supervisor_log rt ''resumed''
                 (s\<lparr> sup := (sup s)\<lparr> startedAt := Some (clock (world s)), status := Running \<rparr> \<rparr>))))"

text \<open>Approvals.\<close>

definition addApprovalRequest :: "runtime \<Rightarrow> string \<Rightarrow> step list \<Rightarrow> string \<Rightarrow> system \<Rightarrow> approval \<times> system" where
  "addApprovalRequest rt siteId acts why s =
     (let aid = showNat (nextApprovalId (sup s));
          item = \<lparr> apId = aid, apSiteId = siteId, apActions = acts, apReason = why,
                   apCreatedAt = safeNowIso rt s \<rparr>;
          s1 = s\<lparr> sup := (sup s)\<lparr> nextApprovalId := nextApprovalId (sup s) + 1,
                                  approvals := approvals (sup s) @ [item],
                                  lastNote := Some (''Approval requested #'' @ aid @ '' for '' @ siteId) \<rparr> \<rparr>
      in (item,
          supervisor_log rt (''approval.requested '' @ arrow @ '' #'' @ aid @ '' site='' @ siteId @
                             '' reason='' @ [CHR 0x22] @ why @ [CHR 0x22] @ '' steps='' @
                             showNat (length acts)) s1))"

definition incrementTasksRouted :: "nat \<Rightarrow> system \<Rightarrow> system" where
  "incrementTasksRouted n s = s\<lparr> sup := (sup s)\<lparr> tasksRouted := tasksRouted (sup s) + n \<rparr> \<rparr>"

text \<open>The exact-duplicate guard: the ledger \<open>processed\<close> from event id to time seen.\<close>

definition PROCESSED_TTL_MS :: int where "PROCESSED_TTL_MS = 60000"

definition eventId :: "busEvent \<Rightarrow> string" where
  "eventId evt =
     strOr (evType evt) [] @ ''|'' @ strOr (evSiteId evt) [] @ ''|'' @ strOr (evAlarm evt) [] @ ''|'' @
     strOr (orStr (evTimestamp evt) (evTs evt)) []"

definition remember :: "string \<Rightarrow> system \<Rightarrow> system" where
  "remember eid s =
     (let now = clock (world s);
          m = AList.update eid now (processed s)
      in s\<lparr> processed :=
           (if length m > 5000 then filter (\<lambda>(k, v). \<not> v < now - PROCESSED_TTL_MS) m else m) \<rparr>)"

text \<open>\<open>(evt?.siteId && String(evt.siteId).trim()) || null\<close>.\<close>

definition siteIdOf :: "busEvent \<Rightarrow> string option" where
  "siteIdOf evt =
     (case evSiteId evt of
        None \<Rightarrow> None
      | Some x \<Rightarrow> if x = [] \<or> trim x = [] then None else Some (trim x))"

text \<open>\<open>JSON.stringify({ type, siteId, alarm, ts })\<close> for the log line of the event.\<close>

definition jsonField :: "string \<Rightarrow> string option \<Rightarrow> string list" where
  "jsonField k v = (case v of None \<Rightarrow> [] | Some x \<Rightarrow> [[CHR 0x22] @ k @ [CHR 0x22] @ '':'' @ x])"

definition eventJson :: "busEvent \<Rightarrow> string" where
  "eventJson evt =
     ''{'' @ join '',''
       (jsonField ''type'' (map_option jsonString (evType evt)) @
        jsonField ''siteId'' (Some (case siteIdOf evt of None \<Rightarrow> ''null'' | Some x \<Rightarrow> jsonString x)) @
        jsonField ''alarm'' (map_option jsonString (evAlarm evt)) @
        jsonField ''ts'' (map_option jsonString (orStr (evTimestamp evt) (evTs evt)))) @ ''}''"

text \<open>Step 3 of \<open>handleEvent\<close> when \<open>autoEffective()\<close> is false: the HITL path.\<close>

definition hitlPath :: "runtime \<Rightarrow> string \<Rightarrow> system \<Rightarrow> system" where
  "hitlPath rt siteId s =
     (case mitigateSite rt siteId (startB rt s) of
        (out, s1) \<Rightarrow>
          if error out = Some ''approval_required''
          then supervisor_log rt (''HITL: plan queued for approval @ '' @ siteId @ '' (steps='' @
                                  showNat (length (orElse (plan out) [])) @ '')'')
                 (snd (addApprovalRequest rt siteId (orElse (plan out) [])
                         ''Troubleshooting HITL plan requires approval'' s1))
          else supervisor_log rt (''HITL: result for '' @ siteId @ '' (ok='' @ showBool (ok out) @
                                  '', err='' @ strOr (error out) ''none'' @ '')'') s1)"

text \<open>Step 3 when \<open>autoEffective()\<close> is true, and step 4: run B, report to C.\<close>

definition autoPath :: "runtime \<Rightarrow> string \<Rightarrow> system \<Rightarrow> system" where
  "autoPath rt siteId s =
     (case mitigateSite rt siteId
             (supervisor_log rt (''Agent B: mitigating '' @ siteId @ ellipsis)
               (incrementTasksRouted 1 (startB rt s))) of
        (result, s1) \<Rightarrow>
          if ok result \<and> allClear result = Some True
          then supervisor_log rt (''Agent C: restored recorded for '' @ siteId)
                 (snd (recordIncident rt siteId (Some ''correlated_alarm_cluster'')
                         (map ActionStep (orElse (actionsTaken result) [])) ''restored'' s1))
          else supervisor_log rt (''Agent C: stabilized/dispatch-suggested recorded for '' @ siteId)
                 (snd (recordIncident rt siteId (Some ''correlated_alarm_cluster'')
                         (map ActionStep (orElse (actionsTaken result) [])) ''stabilized'' s1)))"

text \<open>
  The one event that the Supervisor hands to Agent A:
  \<open>{ siteId, type: evt.alarm || evt.type || 'unknown', timestamp: evt.timestamp || evt.ts || safeNowIso() }\<close>.
\<close>

definition probeEvent :: "busEvent \<Rightarrow> string \<Rightarrow> string \<Rightarrow> corrEvent" where
  "probeEvent evt siteId nowIso =
     \<lparr> ceSiteId = Some siteId,
       ceType = Some (strOr (orStr (evAlarm evt) (evType evt)) ''unknown''),
       ceAlarm = None,
       ceTimestamp = Some (strOr (orStr (evTimestamp evt) (evTs evt)) nowIso) \<rparr>"

text \<open>Steps 1 and 2 for an actionable event of site \<open>siteId\<close>, then the branch of step 3.\<close>

definition routeEvent :: "runtime \<Rightarrow> busEvent \<Rightarrow> string \<Rightarrow> system \<Rightarrow> system" where
  "routeEvent rt evt siteId s =
     (let s1 = startA rt s;
          correlateInput = [probeEvent evt siteId (safeNowIso rt s1)]
      in case correlate rt correlateInput s1 of
           (incidents, s2) \<Rightarrow>
             (let s3 = supervisor_log rt (''Agent A: '' @ siteId @ '' '' @ arrow @ '' '' @
                                          showNat (length incidents) @ '' incident(s)'') s2
              in if incidents = [] then s3
                 else
                   (let s4 = snd (recordIncident rt siteId (Some ''correlated_alarm_cluster'') []
                                    ''investigating'' s3);
                        s5 = supervisor_log rt (''Agent C: investigating recorded for '' @ siteId) s4
                    in if \<not> autoEffective s5 then hitlPath rt siteId s5 else autoPath rt siteId s5)))"

text \<open>\<open>handleEvent\<close> after the duplicate guard.\<close>

definition orchestrate :: "runtime \<Rightarrow> busEvent \<Rightarrow> system \<Rightarrow> system" where
  "orchestrate rt evt s =
     (let s1 = supervisor_log rt (''bus.event '' @ arrow @ '' '' @ eventJson evt) s
      in if status (sup s1) \<noteq> Running
         then supervisor_log rt (''supervisor.idle '' @ arrow @ '' ignoring bus event'') s1
         else
           (case siteIdOf evt of
              None \<Rightarrow> supervisor_log rt (''event.skipped '' @ arrow @ '' missing siteId'') s1
            | Some siteId \<Rightarrow>
                if evType evt \<noteq> Some ''alarm.raised'' \<and> evType evt \<noteq> Some ''service.changed''
                then supervisor_log rt (''event.skipped '' @ arrow @ '' non-actionable type: '' @
                                        String (evType evt)) s1
                else routeEvent rt evt siteId s1))"

definition handleEvent :: "runtime \<Rightarrow> busEvent \<Rightarrow> system \<Rightarrow> system" where
  "handleEvent rt evt s =
     (if map_of (processed s) (eventId evt) \<noteq> None
      then supervisor_log rt (''event.duplicate '' @ arrow @ '' '' @ eventId evt) s
      else orchestrate rt evt (remember (eventId evt) s))"

text \<open>
  The cold-start sweep. \<open>towerSnapshot\<close> is what \<open>getTowerSnapshot()\<close> of the
  bridge resolves to: \<open>None\<close> when it is not ok, else the sites of the cached or
  fetched state. Every alarm of every site is fed to \<open>handleEvent\<close> as an
  \<open>alarm.raised\<close> event stamped with the current time.
\<close>

definition coldStartEvent :: "runtime \<Rightarrow> string \<Rightarrow> string \<Rightarrow> system \<Rightarrow> busEvent" where
  "coldStartEvent rt siteId a s =
     \<lparr> evType = Some ''alarm.raised'', evSiteId = Some siteId, evAlarm = Some a,
       evTimestamp = Some (safeNowIso rt s), evTs = None, evAntenna = None, evFrom = None,
       evTo = None, evSource = None, evBootstrap = False \<rparr>"

fun sweepAlarms :: "runtime \<Rightarrow> (string \<times> string) list \<Rightarrow> system \<Rightarrow> system" where
  "sweepAlarms rt [] s = s"
| "sweepAlarms rt ((siteId, a) # xs) s =
     sweepAlarms rt xs (handleEvent rt (coldStartEvent rt siteId a s) s)"

definition coldStartSweep :: "runtime \<Rightarrow> snapshot option \<Rightarrow> system \<Rightarrow> system" where
  "coldStartSweep rt towerSnapshot s =
     (case towerSnapshot of
        None \<Rightarrow> s
      | Some sites \<Rightarrow>
          (let todo = concat (map (\<lambda>(siteId, st). map (\<lambda>a. (siteId, a)) (alarms st)) sites);
               s1 = sweepAlarms rt todo s
           in if length todo > 0
              then supervisor_log rt (''cold-start sweep '' @ arrow @ '' synthesized '' @
                                      showNat (length todo) @ '' alarm.raised events'') s1
              else s1))"

definition start :: "runtime \<Rightarrow> snapshot option \<Rightarrow> system \<Rightarrow> string \<times> system" where
  "start rt towerSnapshot s =
     (if status (sup s) = Running then (''Already running'', s)
      else if status (sup s) = Paused then (''Resumed'', snd (resume rt s))
      else (''OK: started'',
            coldStartSweep rt towerSnapshot
              (ensureAgentsRunning rt
                (supervisor_log rt ''started''
                  (s\<lparr> sup := (sup s)\<lparr> status := Running, startedAt := Some (clock (world s)) \<rparr> \<rparr>)))))"

section \<open>Observations on the trace\<close>

text \<open>
  An answer of the simulator shows the antenna of a site Available; a piece of trace ends
  on success when it holds such an answer and no device request after it.
\<close>

definition showsAvailable :: "string \<Rightarrow> string \<Rightarrow> io \<Rightarrow> bool" where
  "showsAvailable siteId antenna x =
     (case x of
        Response (Some snap) \<Rightarrow> serviceOf antenna (map_of snap siteId) = Some ''Available''
      | _ \<Rightarrow> False)"

definition endsOnSuccess :: "string \<Rightarrow> string \<Rightarrow> io list \<Rightarrow> bool" where
  "endsOnSuccess siteId antenna new \<longleftrightarrow>
     (\<exists>pre x post. new = pre @ x # post \<and> showsAvailable siteId antenna x \<and> requestsIn post = [])"

text \<open>The requests of an attempt that goes through its reset: ON, OFF, ON.\<close>

definition fullAttempt :: "string \<Rightarrow> string \<Rightarrow> deviceReq list" where
  "fullAttempt siteId antenna =
     [Rru siteId antenna ''on'', Rru siteId antenna ''off'', Rru siteId antenna ''on'']"

text \<open>
  The fields that no step of the orchestration writes: the ledger, the policy, the
  toggle, and the lifecycle fields of the Supervisor.
\<close>

definition sameConfig :: "system \<Rightarrow> system \<Rightarrow> bool" where
  "sameConfig s s' \<longleftrightarrow>
     processed s' = processed s \<and> pol s' = pol s \<and> autoEnabled s' = autoEnabled s \<and>
     status (sup s') = status (sup s) \<and> startedAt (sup s') = startedAt (sup s) \<and>
     runtimeSec (sup s') = runtimeSec (sup s)"

section \<open>Observations on the casebook\<close>

text \<open>
  A case counts for a site when it carries the site's id and is not noise. The site has
  such a case; and \<open>c\<close> is the most recent one: no later case of the casebook counts
  for the site.
\<close>

definition countsFor :: "string \<Rightarrow> rcaCase \<Rightarrow> bool" where
  "countsFor siteId c \<longleftrightarrow> caseSiteId c = siteId \<and> \<not> isNoise (caseSiteId c) (cause c)"

definition hasCaseOf :: "string \<Rightarrow> rcaCase list \<Rightarrow> bool" where
  "hasCaseOf siteId cb \<longleftrightarrow> (\<exists>c \<in> set cb. countsFor siteId c)"

definition latestCaseOf :: "string \<Rightarrow> rcaCase list \<Rightarrow> rcaCase \<Rightarrow> bool" where
  "latestCaseOf siteId cb c \<longleftrightarrow>
     (\<exists>pre post. cb = pre @ c # post \<and> countsFor siteId c \<and> (\<forall>d \<in> set post. \<not> countsFor siteId d))"

text \<open>The object \<open>{ ok: false, error: 'no_unresolved_case' }\<close>.\<close>

definition noUnresolvedCase :: email where
  "noUnresolvedCase = \<lparr> ok = False, error = Some ''no_unresolved_case'', subject = None, body = None \<rparr>"

text \<open>The subject line of the dispatch email for a case.\<close>

definition dispatchSubject :: "string \<Rightarrow> rcaCase \<Rightarrow> string" where
  "dispatchSubject siteId c =
     ''[DISPATCH] '' @ siteId @ '' '' @ enDash @ '' '' @ strOr (cause c) ''Degradation'' @
     '' '' @ enDash @ '' Action required''"

section \<open>Observations on the emissions of the delta emitter\<close>

text \<open>
  The order in which the two loops of \<open>ingest\<close> visit the sites: the keys of the
  previous view in their order, then the keys that only the current view has, in theirs.
\<close>

definition alarmSiteOrder :: "(string \<times> string list) list \<Rightarrow> snapshot \<Rightarrow> string list" where
  "alarmSiteOrder prev st = uniq (map fst prev @ map fst (extractAlarmsBySite st))"

definition serviceSiteOrder :: "(string \<times> (string option \<times> string option)) list \<Rightarrow> snapshot \<Rightarrow> string list" where
  "serviceSiteOrder prev st = uniq (map fst prev @ map fst (extractServiceBySite st))"

text \<open>
  The place of an element in a list (its length when absent), the phase of an alarm
  event (raised before cleared), and the key that orders the events of one call: the
  place of the event's site in the visiting order first, the phase second.
\<close>

fun position :: "'a list \<Rightarrow> 'a \<Rightarrow> nat" where
  "position [] x = 0"
| "position (y # ys) x = (if x = y then 0 else Suc (position ys x))"

definition phase :: "busEvent \<Rightarrow> nat" where
  "phase e = (if evType e = Some ''alarm.cleared'' then 1 else 0)"

definition groupKey :: "string list \<Rightarrow> busEvent \<Rightarrow> nat" where
  "groupKey order e = 2 * position (map Some order) (evSiteId e) + phase e"


text \<open>The site keys of a sequence of events, in the order of the events.\<close>

definition siteKeys :: "busEvent list \<Rightarrow> string list" where
  "siteKeys es = concat (map (\<lambda>e. case evSiteId e of Some k \<Rightarrow> [k] | None \<Rightarrow> []) es)"
section \<open>The process at module load, and a runtime for concrete runs\<close>

text \<open>
  The state that the module bodies and the constructors set up, at load time \<open>t0\<close>.
\<close>

definition initialAgent :: "runtime \<Rightarrow> int \<Rightarrow> string \<Rightarrow> nat \<Rightarrow> string \<Rightarrow> agent" where
  "initialAgent rt t0 nm seed msg =
     agent_log rt t0 msg
       \<lparr> name = nm, agStatus = Stopped, agStartedAt = None, agRuntimeSec = 0, tasks = seed,
         lastTask = None, agLogs = [] \<rparr>"

definition initialSystem :: "runtime \<Rightarrow> int \<Rightarrow> system" where
  "initialSystem rt t0 =
     \<lparr> sup = \<lparr> status = Idle, startedAt = None, runtimeSec = 0, tasksRouted = 0, lastNote = None,
               logs = [], approvals = [], nextApprovalId = 1 \<rparr>,
       processed = [],
       agentA = agent.extend
                  (initialAgent rt t0 ''Agent A'' 47 ''initialized (stopped, delegation disabled by policy)'')
                  (correlationAgent.fields ''disabled'' (5 * 60 * 1000) 0),
       agentB = initialAgent rt t0 ''Agent B'' 0 ''initialized (stopped)'',
       agentC = agent.extend (initialAgent rt t0 ''Agent C'' 0 ''initialized (stopped)'')
                  (rcaAgent.fields [] []),
       pol = DEFAULT_POLICY (toISOString rt t0),
       autoEnabled = False,
       world = \<lparr> clock = t0, pending = [], trace = [] \<rparr> \<rparr>"

text \<open>
  A runtime for concrete runs: a time \<open>t\<close> is rendered as \<open>T\<close> followed by its
  digits, and three such strings parse.
\<close>

definition rt0 :: runtime where
  "rt0 = \<lparr> toISOString = (\<lambda>t. ''T'' @ showInt t),
           parseDate = (\<lambda>v. case v of None \<Rightarrow> None
                            | Some x \<Rightarrow> map_of [(''T0'', 0), (''T240000'', 240000), (''T360000'', 360000)] x) \<rparr>"

text \<open>A healthy site, and the site of the mains-outage scenario.\<close>

definition healthySite :: site where
  "healthySite =
     \<lparr> mains = Some ''on'', siteAlive = Some True, batteryPercent = Some 90,
       antenna1 = Some ''Available'', antenna2 = Some ''Available'', alarms = [] \<rparr>"

definition outageSite :: site where
  "outageSite =
     \<lparr> mains = Some ''off'', siteAlive = Some True, batteryPercent = Some 80,
       antenna1 = Some ''Unavailable'', antenna2 = Some ''Unavailable'',
       alarms = [''MainsFailure'', ''ServiceUnavailable''] \<rparr>"

text \<open>
  The process with Agent B running under the default policy (human intervention), the
  simulator about to answer with the outage of site S1.
\<close>

definition hitlSystem :: system where
  "hitlSystem =
     (initialSystem rt0 0)
       \<lparr> agentB := (agentB (initialSystem rt0 0))\<lparr> agStatus := Running, agStartedAt := Some 0 \<rparr>,
         world := \<lparr> clock = 0, pending = [Some [(''S1'', outageSite)]], trace = [] \<rparr> \<rparr>"

text \<open>The process with Agent B running and the simulator's coming answers given.\<close>

definition healSystem :: "snapshot option list \<Rightarrow> system" where
  "healSystem answers =
     (initialSystem rt0 0)
       \<lparr> agentB := (agentB (initialSystem rt0 0))\<lparr> agStatus := Running, agStartedAt := Some 0 \<rparr>,
         world := \<lparr> clock = 0, pending = answers, trace = [] \<rparr> \<rparr>"

text \<open>
  The event of the duplicate-delivery scenario, and the process with the Supervisor and
  the three agents running under the default policy.
\<close>

definition mainsEvent :: busEvent where
  "mainsEvent =
     \<lparr> evType = Some ''alarm.raised'', evSiteId = Some ''S1'', evAlarm = Some ''MainsFailure'',
       evTimestamp = None, evTs = Some ''2025-01-01T00:00:00Z'', evAntenna = None, evFrom = None,
       evTo = None, evSource = Some ''delta'', evBootstrap = False \<rparr>"

definition runningSystem :: "snapshot option list \<Rightarrow> system" where
  "runningSystem answers =
     (ensureAgentsRunning rt0 (initialSystem rt0 0))
       \<lparr> sup := (sup (initialSystem rt0 0))\<lparr> status := Running, startedAt := Some 0 \<rparr>,
         world := \<lparr> clock = 0, pending = answers, trace = [] \<rparr> \<rparr>"

text \<open>
  The running process with the manual auto toggle switched on, the simulator answering
  twice with the outage of S1.
\<close>

definition autoSystem :: system where
  "autoSystem =
     (runningSystem [Some [(''S1'', outageSite)], Some [(''S1'', outageSite)]])\<lparr> autoEnabled := True \<rparr>"

text \<open>
  A casebook of S1: a stabilized case with dispatch suggested, then the restored case
  that closes it.
\<close>

definition stabilizedCase :: rcaCase where
  "stabilizedCase =
     \<lparr> caseTs = ''T0'', caseSiteId = ''S1'', cause = Some ''correlated_alarm_cluster'',
       caseActions = [], resolution = ''stabilized'', ongoing = True, dispatchSuggested = True,
       summaryLine = ''Site S1: stabilized'' \<rparr>"

definition restoredCase :: rcaCase where
  "restoredCase =
     \<lparr> caseTs = ''T240000'', caseSiteId = ''S1'', cause = Some ''correlated_alarm_cluster'',
       caseActions = [], resolution = ''restored'', ongoing = False, dispatchSuggested = False,
       summaryLine = ''Site S1: restored'' \<rparr>"

definition casebookSystem :: "rcaCase list \<Rightarrow> system" where
  "casebookSystem cb =
     (runningSystem [Some [(''S1'', healthySite)]])
       \<lparr> agentC := (agentC (runningSystem [Some [(''S1'', healthySite)]]))\<lparr> casebook := cb \<rparr> \<rparr>"

text \<open>
  Four events for the batch mode of Agent A: one without a site, a heartbeat, an alarm
  that is not critical, and a mains failure.
\<close>

definition noSiteEvent :: corrEvent where
  "noSiteEvent = \<lparr> ceSiteId = None, ceType = Some ''MainsFailure'', ceAlarm = None, ceTimestamp = Some ''T0'' \<rparr>"

definition heartbeatEvent :: corrEvent where
  "heartbeatEvent = \<lparr> ceSiteId = Some ''S1'', ceType = Some ''HeartBeat'', ceAlarm = None, ceTimestamp = Some ''T0'' \<rparr>"

definition doorEvent :: corrEvent where
  "doorEvent = \<lparr> ceSiteId = Some ''S1'', ceType = Some ''DoorOpen'', ceAlarm = None, ceTimestamp = Some ''T0'' \<rparr>"

definition mainsFailureEvent :: corrEvent where
  "mainsFailureEvent = \<lparr> ceSiteId = Some ''S1'', ceType = Some ''MainsFailure'', ceAlarm = None, ceTimestamp = Some ''T0'' \<rparr>"

text \<open>
  Two snapshots of the sites B and A, in that key order: in the first B has an open
  door; in the second the door alarm is gone, B has lost the mains and A the service
  of its first antenna. And a fresh emitter, and the one that has stored the first
  snapshot.
\<close>

definition firstSnapshot :: snapshot where
  "firstSnapshot = [(''B'', healthySite\<lparr> alarms := [''DoorOpen''] \<rparr>), (''A'', healthySite)]"

definition secondSnapshot :: snapshot where
  "secondSnapshot =
     [(''B'', healthySite\<lparr> alarms := [''MainsFailure''] \<rparr>),
      (''A'', healthySite\<lparr> antenna1 := Some ''Unavailable'', alarms := [''ServiceUnavailable''] \<rparr>)]"

definition freshEmitter :: deltaEmitter where
  "freshEmitter = \<lparr> bootstrapEmit = True, lastAlarmsBySite = None, lastServiceBySite = None \<rparr>"

definition storedEmitter :: deltaEmitter where
  "storedEmitter = snd (ingest ''T0'' firstSnapshot freshEmitter)"
section \<open>Properties of the policy store\<close>

lemma ALARM_CANON_eq:
  "ALARM_CANON = [(''critical first'', ''Critical First''), (''adaptive correlation'', ''Adaptive Correlation'')]"
  by (simp add: ALARM_CANON_def toCanonMap_def ALARM_OPTIONS_def toLowerCase_def lowerChar_def)

lemma WOW_CANON_eq:
  "WOW_CANON = [(''e2e automation'', ''E2E automation''),
                (''human intervention at critical steps'', ''Human intervention at critical steps'')]"
  by (simp add: WOW_CANON_def toCanonMap_def WOW_OPTIONS_def toLowerCase_def lowerChar_def)

lemma KPI_CANON_eq:
  "KPI_CANON = [(''>95%'', ''>95%''), (''75%'', ''75%'')]"
  by (simp add: KPI_CANON_def toCanonMap_def KPI_OPTIONS_def toLowerCase_def lowerChar_def)

lemma lower_ALARM_OPTIONS:
  "map toLowerCase ALARM_OPTIONS = [''critical first'', ''adaptive correlation'']"
  by (simp add: ALARM_OPTIONS_def toLowerCase_def lowerChar_def)

lemma lower_WOW_OPTIONS:
  "map toLowerCase WOW_OPTIONS = [''e2e automation'', ''human intervention at critical steps'']"
  by (simp add: WOW_OPTIONS_def toLowerCase_def lowerChar_def)

lemma lower_KPI_OPTIONS:
  "map toLowerCase KPI_OPTIONS = [''>95%'', ''75%'']"
  by (simp add: KPI_OPTIONS_def toLowerCase_def lowerChar_def)

lemma toCanonical_alarm_ok:
  "matchesOption ALARM_OPTIONS val \<Longrightarrow>
   \<exists>c. toCanonical val ALARM_CANON lbl = Inr c \<and>
       (\<forall>old. canonicalised ALARM_OPTIONS val old (orElse c old))"
proof (cases val)
  case None
  then show ?thesis by (simp add: toCanonical_def canonicalised_def orElse_def)
next
  case (Some v)
  assume "matchesOption ALARM_OPTIONS val"
  with Some have "toLowerCase v = ''critical first'' \<or> toLowerCase v = ''adaptive correlation''"
    by (simp add: matchesOption_def lower_ALARM_OPTIONS)
  then show ?thesis
  proof
    assume h: "toLowerCase v = ''critical first''"
    have "toLowerCase ''Critical First'' = ''critical first''"
      by (simp add: toLowerCase_def lowerChar_def)
    with h Some show ?thesis
      by (simp add: toCanonical_def ALARM_CANON_eq canonicalised_def orElse_def ALARM_OPTIONS_def)
  next
    assume h: "toLowerCase v = ''adaptive correlation''"
    have "toLowerCase ''Adaptive Correlation'' = ''adaptive correlation''"
      by (simp add: toLowerCase_def lowerChar_def)
    with h Some show ?thesis
      by (simp add: toCanonical_def ALARM_CANON_eq canonicalised_def orElse_def ALARM_OPTIONS_def)
  qed
qed

lemma toCanonical_wow_ok:
  "matchesOption WOW_OPTIONS val \<Longrightarrow>
   \<exists>c. toCanonical val WOW_CANON lbl = Inr c \<and>
       (\<forall>old. canonicalised WOW_OPTIONS val old (orElse c old))"
proof (cases val)
  case None
  then show ?thesis by (simp add: toCanonical_def canonicalised_def orElse_def)
next
  case (Some v)
  assume "matchesOption WOW_OPTIONS val"
  with Some have "toLowerCase v = ''e2e automation'' \<or>
                  toLowerCase v = ''human intervention at critical steps''"
    by (simp add: matchesOption_def lower_WOW_OPTIONS)
  then show ?thesis
  proof
    assume h: "toLowerCase v = ''e2e automation''"
    have "toLowerCase ''E2E automation'' = ''e2e automation''"
      by (simp add: toLowerCase_def lowerChar_def)
    with h Some show ?thesis
      by (simp add: toCanonical_def WOW_CANON_eq canonicalised_def orElse_def WOW_OPTIONS_def)
  next
    assume h: "toLowerCase v = ''human intervention at critical steps''"
    have "toLowerCase ''Human intervention at critical steps'' = ''human intervention at critical steps''"
      by (simp add: toLowerCase_def lowerChar_def)
    with h Some show ?thesis
      by (simp add: toCanonical_def WOW_CANON_eq canonicalised_def orElse_def WOW_OPTIONS_def)
  qed
qed

lemma toCanonical_kpi_ok:
  "matchesOption KPI_OPTIONS val \<Longrightarrow>
   \<exists>c. toCanonical val KPI_CANON lbl = Inr c \<and>
       (\<forall>old. canonicalised KPI_OPTIONS val old (orElse c old))"
proof (cases val)
  case None
  then show ?thesis by (simp add: toCanonical_def canonicalised_def orElse_def)
next
  case (Some v)
  assume "matchesOption KPI_OPTIONS val"
  with Some have "toLowerCase v = ''>95%'' \<or> toLowerCase v = ''75%''"
    by (simp add: matchesOption_def lower_KPI_OPTIONS)
  then show ?thesis
  proof
    assume h: "toLowerCase v = ''>95%''"
    have "toLowerCase ''>95%'' = ''>95%''"
      by (simp add: toLowerCase_def lowerChar_def)
    with h Some show ?thesis
      by (simp add: toCanonical_def KPI_CANON_eq canonicalised_def orElse_def KPI_OPTIONS_def)
  next
    assume h: "toLowerCase v = ''75%''"
    have "toLowerCase ''75%'' = ''75%''"
      by (simp add: toLowerCase_def lowerChar_def)
    with h Some show ?thesis
      by (simp add: toCanonical_def KPI_CANON_eq canonicalised_def orElse_def KPI_OPTIONS_def)
  qed
qed

lemma toCanonical_alarm_bad:
  "\<not> matchesOption ALARM_OPTIONS val \<Longrightarrow> \<exists>e. toCanonical val ALARM_CANON lbl = Inl e"
  by (cases val) (auto simp: matchesOption_def lower_ALARM_OPTIONS toCanonical_def ALARM_CANON_eq)

lemma toCanonical_wow_bad:
  "\<not> matchesOption WOW_OPTIONS val \<Longrightarrow> \<exists>e. toCanonical val WOW_CANON lbl = Inl e"
  by (cases val) (auto simp: matchesOption_def lower_WOW_OPTIONS toCanonical_def WOW_CANON_eq)

lemma toCanonical_kpi_bad:
  "\<not> matchesOption KPI_OPTIONS val \<Longrightarrow> \<exists>e. toCanonical val KPI_CANON lbl = Inl e"
  by (cases val) (auto simp: matchesOption_def lower_KPI_OPTIONS toCanonical_def KPI_CANON_eq)

lemma toCanonical_None [simp]: "toCanonical None m lbl = Inr None"
  by (simp add: toCanonical_def)

lemma validatePatch_ok:
  assumes "patchMatches p"
  shows "\<exists>v. validatePatch p = Inr v \<and>
     (\<forall>old. canonicalised ALARM_OPTIONS (patchAlarmPrioritization p) old
              (orElse (patchAlarmPrioritization v) old)) \<and>
     (\<forall>old. canonicalised WOW_OPTIONS (patchWaysOfWorking p) old
              (orElse (patchWaysOfWorking v) old)) \<and>
     (\<forall>old. canonicalised KPI_OPTIONS (patchKpiAlignment p) old
              (orElse (patchKpiAlignment v) old))"
proof -
  from assms obtain a where a: "toCanonical (patchAlarmPrioritization p) ALARM_CANON ''alarmPrioritization'' = Inr a"
      "\<forall>old. canonicalised ALARM_OPTIONS (patchAlarmPrioritization p) old (orElse a old)"
    using toCanonical_alarm_ok unfolding patchMatches_def by blast
  from assms obtain w where w: "toCanonical (patchWaysOfWorking p) WOW_CANON ''waysOfWorking'' = Inr w"
      "\<forall>old. canonicalised WOW_OPTIONS (patchWaysOfWorking p) old (orElse w old)"
    using toCanonical_wow_ok unfolding patchMatches_def by blast
  from assms obtain k where k: "toCanonical (patchKpiAlignment p) KPI_CANON ''kpiAlignment'' = Inr k"
      "\<forall>old. canonicalised KPI_OPTIONS (patchKpiAlignment p) old (orElse k old)"
    using toCanonical_kpi_ok unfolding patchMatches_def by blast
  have a': "patchAlarmPrioritization p = None \<Longrightarrow> a = None"
    using a(1) by simp
  have w': "patchWaysOfWorking p = None \<Longrightarrow> w = None"
    using w(1) by simp
  have k': "patchKpiAlignment p = None \<Longrightarrow> k = None"
    using k(1) by simp
  have "validatePatch p =
      Inr \<lparr> patchAlarmPrioritization = a, patchWaysOfWorking = w, patchKpiAlignment = k \<rparr>"
    using a(1) w(1) k(1) a' w' k' by (simp add: validatePatch_def)
  with a(2) w(2) k(2) show ?thesis by simp
qed

lemma validatePatch_bad:
  assumes "\<not> patchMatches p"
  shows "\<exists>e. validatePatch p = Inl e"
proof -
  from assms consider
      "\<not> matchesOption ALARM_OPTIONS (patchAlarmPrioritization p)"
    | "\<not> matchesOption WOW_OPTIONS (patchWaysOfWorking p)"
    | "\<not> matchesOption KPI_OPTIONS (patchKpiAlignment p)"
    unfolding patchMatches_def by blast
  then show ?thesis
  proof cases
    case 1
    then obtain e where "toCanonical (patchAlarmPrioritization p) ALARM_CANON ''alarmPrioritization'' = Inl e"
      using toCanonical_alarm_bad by blast
    moreover from 1 have "patchAlarmPrioritization p \<noteq> None"
      by (auto simp: matchesOption_def split: option.splits)
    ultimately show ?thesis by (simp add: validatePatch_def)
  next
    case 2
    then obtain e where e: "toCanonical (patchWaysOfWorking p) WOW_CANON ''waysOfWorking'' = Inl e"
      using toCanonical_wow_bad by blast
    from 2 have n: "patchWaysOfWorking p \<noteq> None"
      by (auto simp: matchesOption_def split: option.splits)
    show ?thesis using e n
      by (simp add: validatePatch_def split: sum.splits)
  next
    case 3
    then obtain e where e: "toCanonical (patchKpiAlignment p) KPI_CANON ''kpiAlignment'' = Inl e"
      using toCanonical_kpi_bad by blast
    from 3 have n: "patchKpiAlignment p \<noteq> None"
      by (auto simp: matchesOption_def split: option.splits)
    show ?thesis using e n
      by (simp add: validatePatch_def split: sum.splits)
  qed
qed

text \<open>
  Claim C3. A patch whose supplied fields all match an enum option case-insensitively is
  accepted: each supplied field is stored as the canonical option string, the fields not
  supplied keep their value, and the version grows by exactly one. A patch with a
  supplied field that matches no option makes \<open>setPolicy\<close> raise, and the stored
  policy, version included, is the one before the call.
\<close>

theorem setPolicy_accepts_canonical_rejects_unchanged:
  "(patchMatches p \<longrightarrow>
      (\<exists>q'. setPolicy p src nowIso q = (Inr q', q') \<and>
         version q' = version q + 1 \<and>
         canonicalised ALARM_OPTIONS (patchAlarmPrioritization p)
           (alarmPrioritization q) (alarmPrioritization q') \<and>
         canonicalised WOW_OPTIONS (patchWaysOfWorking p)
           (waysOfWorking q) (waysOfWorking q') \<and>
         canonicalised KPI_OPTIONS (patchKpiAlignment p)
           (kpiAlignment q) (kpiAlignment q'))) \<and>
   (\<not> patchMatches p \<longrightarrow> (\<exists>e. setPolicy p src nowIso q = (Inl e, q)))"
proof (intro conjI impI)
  assume "patchMatches p"
  then obtain v where v: "validatePatch p = Inr v"
    and c: "canonicalised ALARM_OPTIONS (patchAlarmPrioritization p) (alarmPrioritization q)
              (orElse (patchAlarmPrioritization v) (alarmPrioritization q))"
           "canonicalised WOW_OPTIONS (patchWaysOfWorking p) (waysOfWorking q)
              (orElse (patchWaysOfWorking v) (waysOfWorking q))"
           "canonicalised KPI_OPTIONS (patchKpiAlignment p) (kpiAlignment q)
              (orElse (patchKpiAlignment v) (kpiAlignment q))"
    using validatePatch_ok by blast
  show "\<exists>q'. setPolicy p src nowIso q = (Inr q', q') \<and>
         version q' = version q + 1 \<and>
         canonicalised ALARM_OPTIONS (patchAlarmPrioritization p)
           (alarmPrioritization q) (alarmPrioritization q') \<and>
         canonicalised WOW_OPTIONS (patchWaysOfWorking p)
           (waysOfWorking q) (waysOfWorking q') \<and>
         canonicalised KPI_OPTIONS (patchKpiAlignment p)
           (kpiAlignment q) (kpiAlignment q')"
    using v c by (simp add: setPolicy_def Let_def)
next
  assume "\<not> patchMatches p"
  then obtain e where "validatePatch p = Inl e"
    using validatePatch_bad by blast
  then show "\<exists>e. setPolicy p src nowIso q = (Inl e, q)"
    by (simp add: setPolicy_def)
qed

theorem setPolicy_accepts_canonical_rejects_unchanged_witness:
  "patchMatches \<lparr> patchAlarmPrioritization = Some ''adaptive CORRELATION'',
                  patchWaysOfWorking = Some ''e2e AUTOMATION'',
                  patchKpiAlignment = None \<rparr> \<and>
   (\<exists>q'. setPolicy \<lparr> patchAlarmPrioritization = Some ''adaptive CORRELATION'',
                         patchWaysOfWorking = Some ''e2e AUTOMATION'',
                         patchKpiAlignment = None \<rparr> ''api'' ''t1'' (DEFAULT_POLICY ''t0'')
             = (Inr q', q') \<and>
           version q' = 2 \<and>
           alarmPrioritization q' = ''Adaptive Correlation'' \<and>
           waysOfWorking q' = ''E2E automation'' \<and>
           kpiAlignment q' = ''>95%'') \<and>
   \<not> patchMatches \<lparr> patchAlarmPrioritization = None,
                    patchWaysOfWorking = Some ''manual'',
                    patchKpiAlignment = Some ''75%'' \<rparr> \<and>
   (\<exists>e. setPolicy \<lparr> patchAlarmPrioritization = None,
                      patchWaysOfWorking = Some ''manual'',
                      patchKpiAlignment = Some ''75%'' \<rparr> ''api'' ''t1'' (DEFAULT_POLICY ''t0'')
          = (Inl e, DEFAULT_POLICY ''t0''))"
proof -
  let ?p1 = "\<lparr> patchAlarmPrioritization = Some ''adaptive CORRELATION'',
               patchWaysOfWorking = Some ''e2e AUTOMATION'',
               patchKpiAlignment = None \<rparr>"
  let ?p2 = "\<lparr> patchAlarmPrioritization = None,
               patchWaysOfWorking = Some ''manual'',
               patchKpiAlignment = Some ''75%'' \<rparr>"
  have low: "toLowerCase ''adaptive CORRELATION'' = ''adaptive correlation''"
            "toLowerCase ''e2e AUTOMATION'' = ''e2e automation''"
            "toLowerCase ''manual'' = ''manual''"
            "toLowerCase ''Adaptive Correlation'' = ''adaptive correlation''"
            "toLowerCase ''Critical First'' = ''critical first''"
            "toLowerCase ''E2E automation'' = ''e2e automation''"
            "toLowerCase ''Human intervention at critical steps'' = ''human intervention at critical steps''"
    by (simp_all add: toLowerCase_def lowerChar_def)
  have m1: "patchMatches ?p1"
    by (simp add: patchMatches_def matchesOption_def lower_ALARM_OPTIONS lower_WOW_OPTIONS low)
  have m2: "\<not> patchMatches ?p2"
    by (simp add: patchMatches_def matchesOption_def lower_WOW_OPTIONS low)
  from m1 setPolicy_accepts_canonical_rejects_unchanged [of ?p1 "''api''" "''t1''" "DEFAULT_POLICY ''t0''"]
  obtain q' where a: "setPolicy ?p1 ''api'' ''t1'' (DEFAULT_POLICY ''t0'') = (Inr q', q')"
      and v: "version q' = version (DEFAULT_POLICY ''t0'') + 1"
      and c1: "canonicalised ALARM_OPTIONS (patchAlarmPrioritization ?p1)
                 (alarmPrioritization (DEFAULT_POLICY ''t0'')) (alarmPrioritization q')"
      and c2: "canonicalised WOW_OPTIONS (patchWaysOfWorking ?p1)
                 (waysOfWorking (DEFAULT_POLICY ''t0'')) (waysOfWorking q')"
      and c3: "canonicalised KPI_OPTIONS (patchKpiAlignment ?p1)
                 (kpiAlignment (DEFAULT_POLICY ''t0'')) (kpiAlignment q')"
    by blast
  from c1 have "alarmPrioritization q' = ''Adaptive Correlation''"
    by (auto simp: canonicalised_def ALARM_OPTIONS_def low)
  moreover from c2 have "waysOfWorking q' = ''E2E automation''"
    by (auto simp: canonicalised_def WOW_OPTIONS_def low)
  moreover from c3 have "kpiAlignment q' = ''>95%''"
    by (simp add: canonicalised_def DEFAULT_POLICY_def)
  moreover from v have "version q' = 2"
    by (simp add: DEFAULT_POLICY_def)
  ultimately have r1: "\<exists>q'. setPolicy ?p1 ''api'' ''t1'' (DEFAULT_POLICY ''t0'') = (Inr q', q') \<and>
           version q' = 2 \<and>
           alarmPrioritization q' = ''Adaptive Correlation'' \<and>
           waysOfWorking q' = ''E2E automation'' \<and>
           kpiAlignment q' = ''>95%''"
    using a by blast
  from m2 setPolicy_accepts_canonical_rejects_unchanged [of ?p2 "''api''" "''t1''" "DEFAULT_POLICY ''t0''"]
  have r2: "\<exists>e. setPolicy ?p2 ''api'' ''t1'' (DEFAULT_POLICY ''t0'') = (Inl e, DEFAULT_POLICY ''t0'')"
    by blast
  from m1 r1 m2 r2 show ?thesis by blast
qed

section \<open>What each operation leaves untouched\<close>

lemma supervisor_log_fields [simp]:
  "processed (supervisor_log rt m s) = processed s"
  "agentA (supervisor_log rt m s) = agentA s"
  "agentB (supervisor_log rt m s) = agentB s"
  "agentC (supervisor_log rt m s) = agentC s"
  "pol (supervisor_log rt m s) = pol s"
  "autoEnabled (supervisor_log rt m s) = autoEnabled s"
  "world (supervisor_log rt m s) = world s"
  "status (sup (supervisor_log rt m s)) = status (sup s)"
  "startedAt (sup (supervisor_log rt m s)) = startedAt (sup s)"
  "runtimeSec (sup (supervisor_log rt m s)) = runtimeSec (sup s)"
  "tasksRouted (sup (supervisor_log rt m s)) = tasksRouted (sup s)"
  "lastNote (sup (supervisor_log rt m s)) = lastNote (sup s)"
  "approvals (sup (supervisor_log rt m s)) = approvals (sup s)"
  "nextApprovalId (sup (supervisor_log rt m s)) = nextApprovalId (sup s)"
  by (simp_all add: supervisor_log_def)

lemma supervisorNote_fields [simp]:
  "processed (supervisorNote rt m s) = processed s"
  "agentA (supervisorNote rt m s) = agentA s"
  "agentB (supervisorNote rt m s) = agentB s"
  "agentC (supervisorNote rt m s) = agentC s"
  "pol (supervisorNote rt m s) = pol s"
  "autoEnabled (supervisorNote rt m s) = autoEnabled s"
  "world (supervisorNote rt m s) = world s"
  "status (sup (supervisorNote rt m s)) = status (sup s)"
  "startedAt (sup (supervisorNote rt m s)) = startedAt (sup s)"
  "runtimeSec (sup (supervisorNote rt m s)) = runtimeSec (sup s)"
  "tasksRouted (sup (supervisorNote rt m s)) = tasksRouted (sup s)"
  "approvals (sup (supervisorNote rt m s)) = approvals (sup s)"
  "nextApprovalId (sup (supervisorNote rt m s)) = nextApprovalId (sup s)"
  by (simp_all add: supervisorNote_def supervisor_note_def)

lemma logB_fields [simp]:
  "sup (logB rt m s) = sup s"
  "processed (logB rt m s) = processed s"
  "agentA (logB rt m s) = agentA s"
  "agentC (logB rt m s) = agentC s"
  "pol (logB rt m s) = pol s"
  "autoEnabled (logB rt m s) = autoEnabled s"
  "world (logB rt m s) = world s"
  "agStatus (agentB (logB rt m s)) = agStatus (agentB s)"
  "tasks (agentB (logB rt m s)) = tasks (agentB s)"
  by (simp_all add: logB_def agent_log_def)

lemma logC_fields [simp]:
  "sup (logC rt m s) = sup s"
  "processed (logC rt m s) = processed s"
  "agentA (logC rt m s) = agentA s"
  "agentB (logC rt m s) = agentB s"
  "pol (logC rt m s) = pol s"
  "autoEnabled (logC rt m s) = autoEnabled s"
  "world (logC rt m s) = world s"
  "agStatus (agentC (logC rt m s)) = agStatus (agentC s)"
  "casebook (agentC (logC rt m s)) = casebook (agentC s)"
  "lastBySite (agentC (logC rt m s)) = lastBySite (agentC s)"
  by (simp_all add: logC_def agent_log_def)

lemma sleep_fields [simp]:
  "sup (sleep ms s) = sup s"
  "processed (sleep ms s) = processed s"
  "agentA (sleep ms s) = agentA s"
  "agentB (sleep ms s) = agentB s"
  "agentC (sleep ms s) = agentC s"
  "pol (sleep ms s) = pol s"
  "autoEnabled (sleep ms s) = autoEnabled s"
  "trace (world (sleep ms s)) = trace (world s)"
  "pending (world (sleep ms s)) = pending (world s)"
  by (simp_all add: sleep_def)

lemma sendRru_fields [simp]:
  "sup (sendRru a b c s) = sup s"
  "processed (sendRru a b c s) = processed s"
  "agentA (sendRru a b c s) = agentA s"
  "agentB (sendRru a b c s) = agentB s"
  "agentC (sendRru a b c s) = agentC s"
  "pol (sendRru a b c s) = pol s"
  "autoEnabled (sendRru a b c s) = autoEnabled s"
  "trace (world (sendRru a b c s)) = trace (world s) @ [Request (Rru a b c)]"
  "pending (world (sendRru a b c s)) = pending (world s)"
  by (simp_all add: sendRru_def rru_def)

lemma sendPower_fields [simp]:
  "sup (sendPower a b s) = sup s"
  "processed (sendPower a b s) = processed s"
  "agentA (sendPower a b s) = agentA s"
  "agentB (sendPower a b s) = agentB s"
  "agentC (sendPower a b s) = agentC s"
  "pol (sendPower a b s) = pol s"
  "autoEnabled (sendPower a b s) = autoEnabled s"
  "trace (world (sendPower a b s)) = trace (world s) @ [Request (Power a b)]"
  "pending (world (sendPower a b s)) = pending (world s)"
  by (simp_all add: sendPower_def power_def)

lemma fetchSite_fields [simp]:
  "sup (snd (fetchSite siteId s)) = sup s"
  "processed (snd (fetchSite siteId s)) = processed s"
  "agentA (snd (fetchSite siteId s)) = agentA s"
  "agentB (snd (fetchSite siteId s)) = agentB s"
  "agentC (snd (fetchSite siteId s)) = agentC s"
  "pol (snd (fetchSite siteId s)) = pol s"
  "autoEnabled (snd (fetchSite siteId s)) = autoEnabled s"
  by (simp_all add: fetchSite_def case_prod_beta)

text \<open>A read appends its answer to the trace and issues no device request.\<close>


lemma requestsIn_simps [simp]:
  "requestsIn [] = []"
  "requestsIn (Request r # t) = r # requestsIn t"
  "requestsIn (Response x # t) = requestsIn t"
  "requestsIn (t @ u) = requestsIn t @ requestsIn u"
  by (simp_all add: requestsIn_def)

lemma fetchSite_trace:
  "\<exists>r. trace (world (snd (fetchSite siteId s))) = trace (world s) @ [Response r] \<and>
       fst (fetchSite siteId s) = (case r of None \<Rightarrow> None | Some snap \<Rightarrow> map_of snap siteId)"
  by (simp add: fetchSite_def getState_def split: list.splits)

lemma fetchSite_requests [simp]:
  "requestsIn (trace (world (snd (fetchSite siteId s)))) = requestsIn (trace (world s))"
  using fetchSite_trace [of siteId s] by auto

lemma waitAndGet_fields [simp]:
  "sup (snd (waitAndGet siteId n ms s)) = sup s"
  "processed (snd (waitAndGet siteId n ms s)) = processed s"
  "agentA (snd (waitAndGet siteId n ms s)) = agentA s"
  "agentB (snd (waitAndGet siteId n ms s)) = agentB s"
  "agentC (snd (waitAndGet siteId n ms s)) = agentC s"
  "pol (snd (waitAndGet siteId n ms s)) = pol s"
  "autoEnabled (snd (waitAndGet siteId n ms s)) = autoEnabled s"
  "requestsIn (trace (world (snd (waitAndGet siteId n ms s)))) = requestsIn (trace (world s))"
  by (induction n arbitrary: s; simp add: case_prod_beta split: option.splits)+

lemma fetchSite_eval:
  "fst (fetchSite siteId s) =
     (case pending (world s) of [] \<Rightarrow> None
      | r # rs \<Rightarrow> (case r of None \<Rightarrow> None | Some snap \<Rightarrow> map_of snap siteId))"
  "pending (world (snd (fetchSite siteId s))) = tl (pending (world s))"
  "trace (world (snd (fetchSite siteId s))) =
     trace (world s) @ [Response (case pending (world s) of [] \<Rightarrow> None | r # rs \<Rightarrow> r)]"
  by (simp_all add: fetchSite_def getState_def split: list.splits)

lemma logB_world [simp]:
  "trace (world (logB rt m s)) = trace (world s)"
  "pending (world (logB rt m s)) = pending (world s)"
  "clock (world (logB rt m s)) = clock (world s)"
  by simp_all

lemma healSystem_world [simp]:
  "pending (world (healSystem answers)) = answers"
  "trace (world (healSystem answers)) = []"
  by (simp_all add: healSystem_def)

section \<open>Agent B: the radio-heal loop\<close>

lemma waitAndGet_trace:
  "\<exists>rs. trace (world (snd (waitAndGet siteId n ms s))) = trace (world s) @ rs \<and>
        requestsIn rs = [] \<and>
        (\<forall>x. fst (waitAndGet siteId n ms s) = Some x \<longrightarrow>
           (\<exists>rs' snap. rs = rs' @ [Response (Some snap)] \<and> map_of snap siteId = Some x))"
proof (induction n arbitrary: s)
  case 0
  then show ?case by simp
next
  case (Suc n)
  obtain r where r: "trace (world (snd (fetchSite siteId (sleep ms s)))) = trace (world s) @ [Response r]"
      "fst (fetchSite siteId (sleep ms s)) = (case r of None \<Rightarrow> None | Some snap \<Rightarrow> map_of snap siteId)"
    using fetchSite_trace [of siteId "sleep ms s"] by auto
  show ?case
  proof (cases "fst (fetchSite siteId (sleep ms s))")
    case None
    from Suc.IH [of "snd (fetchSite siteId (sleep ms s))"]
    obtain rs where rs: "trace (world (snd (waitAndGet siteId n ms (snd (fetchSite siteId (sleep ms s)))))) =
          trace (world (snd (fetchSite siteId (sleep ms s)))) @ rs"
        "requestsIn rs = []"
        "\<forall>x. fst (waitAndGet siteId n ms (snd (fetchSite siteId (sleep ms s)))) = Some x \<longrightarrow>
           (\<exists>rs' snap. rs = rs' @ [Response (Some snap)] \<and> map_of snap siteId = Some x)"
      by auto
    have "trace (world (snd (waitAndGet siteId (Suc n) ms s))) = trace (world s) @ (Response r # rs)"
      using None r(1) rs(1) by (simp add: case_prod_beta)
    moreover have "requestsIn (Response r # rs) = []"
      using rs(2) by simp
    moreover have "\<forall>x. fst (waitAndGet siteId (Suc n) ms s) = Some x \<longrightarrow>
           (\<exists>rs' snap. Response r # rs = rs' @ [Response (Some snap)] \<and> map_of snap siteId = Some x)"
    proof (intro allI impI)
      fix x assume "fst (waitAndGet siteId (Suc n) ms s) = Some x"
      with None have "fst (waitAndGet siteId n ms (snd (fetchSite siteId (sleep ms s)))) = Some x"
        by (simp add: case_prod_beta)
      with rs(3) obtain rs' snap where "rs = rs' @ [Response (Some snap)]" "map_of snap siteId = Some x"
        by blast
      then have "Response r # rs = (Response r # rs') @ [Response (Some snap)] \<and> map_of snap siteId = Some x"
        by simp
      then show "\<exists>rs' snap. Response r # rs = rs' @ [Response (Some snap)] \<and> map_of snap siteId = Some x"
        by blast
    qed
    ultimately show ?thesis by blast
  next
    case (Some x)
    with r(2) obtain snap where snap: "r = Some snap" "map_of snap siteId = Some x"
      by (cases r) auto
    have "trace (world (snd (waitAndGet siteId (Suc n) ms s))) = trace (world s) @ [Response r]"
      using Some r(1) by (simp add: case_prod_beta)
    moreover have "requestsIn [Response r] = []" by simp
    moreover have "\<forall>y. fst (waitAndGet siteId (Suc n) ms s) = Some y \<longrightarrow>
           (\<exists>rs' snap. [Response r] = rs' @ [Response (Some snap)] \<and> map_of snap siteId = Some y)"
      using Some snap by (simp add: case_prod_beta)
    ultimately show ?thesis by blast
  qed
qed

lemma endsOnSuccess_append: "endsOnSuccess siteId antenna new \<Longrightarrow> endsOnSuccess siteId antenna (old @ new)"
proof -
  assume "endsOnSuccess siteId antenna new"
  then obtain pre x post where "new = pre @ x # post" "showsAvailable siteId antenna x" "requestsIn post = []"
    unfolding endsOnSuccess_def by blast
  then have "old @ new = (old @ pre) @ x # post \<and> showsAvailable siteId antenna x \<and> requestsIn post = []"
    by simp
  then show ?thesis unfolding endsOnSuccess_def by blast
qed

lemma endsOnSuccess_last:
  "serviceOf antenna (map_of snap siteId) = Some ''Available'' \<Longrightarrow> requestsIn post = [] \<Longrightarrow>
   endsOnSuccess siteId antenna (pre @ Response (Some snap) # post)"
  unfolding endsOnSuccess_def showsAvailable_def by force

lemma serviceOf_Some_site: "serviceOf antenna so = Some v \<Longrightarrow> \<exists>st. so = Some st"
  by (cases so) (simp_all add: serviceOf_def)

lemma firstCheck_fields [simp]:
  "sup (snd (firstCheck rt siteId antenna k s)) = sup s"
  "processed (snd (firstCheck rt siteId antenna k s)) = processed s"
  "agentA (snd (firstCheck rt siteId antenna k s)) = agentA s"
  "agentC (snd (firstCheck rt siteId antenna k s)) = agentC s"
  "pol (snd (firstCheck rt siteId antenna k s)) = pol s"
  "autoEnabled (snd (firstCheck rt siteId antenna k s)) = autoEnabled s"
  "agStatus (agentB (snd (firstCheck rt siteId antenna k s))) = agStatus (agentB s)"
  "tasks (agentB (snd (firstCheck rt siteId antenna k s))) = tasks (agentB s)"
  by (simp_all add: firstCheck_def Let_def case_prod_beta split: option.splits)

lemma resetCheck_fields [simp]:
  "sup (snd (resetCheck rt siteId antenna k s)) = sup s"
  "processed (snd (resetCheck rt siteId antenna k s)) = processed s"
  "agentA (snd (resetCheck rt siteId antenna k s)) = agentA s"
  "agentC (snd (resetCheck rt siteId antenna k s)) = agentC s"
  "pol (snd (resetCheck rt siteId antenna k s)) = pol s"
  "autoEnabled (snd (resetCheck rt siteId antenna k s)) = autoEnabled s"
  "agStatus (agentB (snd (resetCheck rt siteId antenna k s))) = agStatus (agentB s)"
  "tasks (agentB (snd (resetCheck rt siteId antenna k s))) = tasks (agentB s)"
  by (simp_all add: resetCheck_def Let_def)

lemma healAttempt_fields [simp]:
  "sup (snd (healAttempt rt siteId antenna k s)) = sup s"
  "processed (snd (healAttempt rt siteId antenna k s)) = processed s"
  "agentA (snd (healAttempt rt siteId antenna k s)) = agentA s"
  "agentC (snd (healAttempt rt siteId antenna k s)) = agentC s"
  "pol (snd (healAttempt rt siteId antenna k s)) = pol s"
  "autoEnabled (snd (healAttempt rt siteId antenna k s)) = autoEnabled s"
  "agStatus (agentB (snd (healAttempt rt siteId antenna k s))) = agStatus (agentB s)"
  "tasks (agentB (snd (healAttempt rt siteId antenna k s))) = tasks (agentB s)"
  by (simp_all add: healAttempt_def case_prod_beta)

lemma firstCheck_trace:
  "\<exists>new. trace (world (snd (firstCheck rt siteId antenna k s))) =
            trace (world s) @ Request (Rru siteId antenna ''on'') # new \<and>
         requestsIn new = [] \<and>
         (serviceOf antenna (fst (firstCheck rt siteId antenna k s)) = Some ''Available'' \<longrightarrow>
            endsOnSuccess siteId antenna new)"
proof -
  define m1 where "m1 = ''RRU ON issued '' @ siteId @ '' '' @ antenna @ '' (attempt '' @
                        showNat k @ ''/'' @ showNat MAX_RRU_ATTEMPTS @ '')''"
  define s3 where "s3 = sleep RECHECK_MS (logB rt m1 (sendRru siteId antenna ''on'' s))"
  define s4 where "s4 = snd (fetchSite siteId s3)"
  define r where "r = fst (fetchSite siteId s3)"
  define s4' where "s4' = logB rt (''waiting siteAlive after RRU ON on '' @ siteId @ ellipsis) s4"
  have t3: "trace (world s3) = trace (world s) @ [Request (Rru siteId antenna ''on'')]"
    by (simp add: s3_def)
  obtain a where a: "trace (world s4) = trace (world s3) @ [Response a]"
      "r = (case a of None \<Rightarrow> None | Some snap \<Rightarrow> map_of snap siteId)"
    using fetchSite_trace [of siteId s3] unfolding s4_def r_def by auto
  have fc: "firstCheck rt siteId antenna k s =
      (if booting r
       then (case waitAndGet siteId 3 RECHECK_MS s4' of (Some x, s5) \<Rightarrow> (Some x, s5) | (None, s5) \<Rightarrow> (r, s5))
       else (r, s4))"
    unfolding firstCheck_def Let_def s3_def s4_def r_def s4'_def m1_def case_prod_beta
    by (rule refl)
  have avail: "serviceOf antenna r = Some ''Available'' \<Longrightarrow> endsOnSuccess siteId antenna ([Response a] @ post)"
    if "requestsIn post = []" for post
  proof -
    assume h: "serviceOf antenna r = Some ''Available''"
    then obtain st where "r = Some st" using serviceOf_Some_site by blast
    with a(2) obtain snap where sn: "a = Some snap" "map_of snap siteId = r"
      by (cases a) auto
    with h have "serviceOf antenna (map_of snap siteId) = Some ''Available''" by simp
    from endsOnSuccess_last [OF this that, of "[]"] sn show ?thesis by simp
  qed
  show ?thesis
  proof (cases "booting r")
    case False
    then have "firstCheck rt siteId antenna k s = (r, s4)" using fc by simp
    moreover have "trace (world s4) = trace (world s) @ Request (Rru siteId antenna ''on'') # [Response a]"
      using a(1) t3 by simp
    moreover have "requestsIn [Response a] = []" by simp
    moreover have "serviceOf antenna r = Some ''Available'' \<longrightarrow> endsOnSuccess siteId antenna [Response a]"
      using avail [of "[]"] by simp
    ultimately show ?thesis by auto
  next
    case True
    obtain rs where rs: "trace (world (snd (waitAndGet siteId 3 RECHECK_MS s4'))) = trace (world s4') @ rs"
        "requestsIn rs = []"
        "\<forall>x. fst (waitAndGet siteId 3 RECHECK_MS s4') = Some x \<longrightarrow>
           (\<exists>rs' snap. rs = rs' @ [Response (Some snap)] \<and> map_of snap siteId = Some x)"
      using waitAndGet_trace [of siteId 3 RECHECK_MS s4'] by auto
    have t5: "trace (world (snd (firstCheck rt siteId antenna k s))) =
          trace (world s) @ Request (Rru siteId antenna ''on'') # (Response a # rs)"
      using True fc rs(1) a(1) t3 by (simp add: case_prod_beta s4'_def split: option.splits)
    have rq: "requestsIn (Response a # rs) = []" using rs(2) by simp
    have "serviceOf antenna (fst (firstCheck rt siteId antenna k s)) = Some ''Available'' \<longrightarrow>
            endsOnSuccess siteId antenna (Response a # rs)"
    proof
      assume h: "serviceOf antenna (fst (firstCheck rt siteId antenna k s)) = Some ''Available''"
      show "endsOnSuccess siteId antenna (Response a # rs)"
      proof (cases "fst (waitAndGet siteId 3 RECHECK_MS s4')")
        case None
        then have "fst (firstCheck rt siteId antenna k s) = r"
          using True fc by (simp add: case_prod_beta)
        with h have "serviceOf antenna r = Some ''Available''" by simp
        from avail [OF rs(2) this] show ?thesis by simp
      next
        case (Some x)
        then have "fst (firstCheck rt siteId antenna k s) = Some x"
          using True fc by (simp add: case_prod_beta)
        with h have hx: "serviceOf antenna (Some x) = Some ''Available''" by simp
        from Some rs(3) obtain rs' snap where sn: "rs = rs' @ [Response (Some snap)]" "map_of snap siteId = Some x"
          by blast
        from hx sn(2) have "serviceOf antenna (map_of snap siteId) = Some ''Available''" by simp
        from endsOnSuccess_last [OF this, of "[]" "Response a # rs'"] sn(1) show ?thesis by simp
      qed
    qed
    with t5 rq show ?thesis by blast
  qed
qed

lemma resetCheck_trace:
  "\<exists>a. trace (world (snd (resetCheck rt siteId antenna k s))) =
          trace (world s) @ [Request (Rru siteId antenna ''off''), Request (Rru siteId antenna ''on''), Response a] \<and>
       fst (resetCheck rt siteId antenna k s) = (case a of None \<Rightarrow> None | Some snap \<Rightarrow> map_of snap siteId)"
proof -
  define s11 where "s11 = sleep RECHECK_MS
      (logB rt (''RRU RESET step (ON) '' @ siteId @ '' '' @ antenna @ '' (attempt '' @ showNat k @ '')'')
        (sendRru siteId antenna ''on''
          (sleep 400
            (logB rt (''RRU RESET step (OFF) '' @ siteId @ '' '' @ antenna @ '' (attempt '' @ showNat k @ '')'')
              (sendRru siteId antenna ''off'' s)))))"
  have rc: "resetCheck rt siteId antenna k s = fetchSite siteId s11"
    unfolding resetCheck_def Let_def s11_def by simp
  have t: "trace (world s11) = trace (world s) @ [Request (Rru siteId antenna ''off''), Request (Rru siteId antenna ''on'')]"
    by (simp add: s11_def)
  from fetchSite_trace [of siteId s11] rc t show ?thesis by auto
qed


lemma healAttempt_io:
  "\<exists>new. trace (world (snd (healAttempt rt siteId antenna k s))) = trace (world s) @ new \<and>
     (fst (healAttempt rt siteId antenna k s) \<longrightarrow>
        endsOnSuccess siteId antenna new \<and>
        (requestsIn new = [Rru siteId antenna ''on''] \<or> requestsIn new = fullAttempt siteId antenna)) \<and>
     (\<not> fst (healAttempt rt siteId antenna k s) \<longrightarrow> requestsIn new = fullAttempt siteId antenna)"
proof -
  define r1 where "r1 = fst (firstCheck rt siteId antenna k s)"
  define s5 where "s5 = snd (firstCheck rt siteId antenna k s)"
  obtain n1 where n1: "trace (world s5) = trace (world s) @ Request (Rru siteId antenna ''on'') # n1"
      "requestsIn n1 = []"
      "serviceOf antenna r1 = Some ''Available'' \<longrightarrow> endsOnSuccess siteId antenna n1"
    using firstCheck_trace [of rt siteId antenna k s] unfolding r1_def s5_def by auto
  show ?thesis
  proof (cases "serviceOf antenna r1 = Some ''Available''")
    case True
    then have h: "healAttempt rt siteId antenna k s = (True, s5)"
      by (simp add: healAttempt_def case_prod_beta r1_def s5_def)
    from True n1(3) have "endsOnSuccess siteId antenna (Request (Rru siteId antenna ''on'') # n1)"
      using endsOnSuccess_append [of siteId antenna n1 "[Request (Rru siteId antenna ''on'')]"] by simp
    moreover have "requestsIn (Request (Rru siteId antenna ''on'') # n1) = [Rru siteId antenna ''on'']"
      using n1(2) by simp
    ultimately show ?thesis using h n1(1) by auto
  next
    case False
    define r2 where "r2 = fst (resetCheck rt siteId antenna k s5)"
    define s12 where "s12 = snd (resetCheck rt siteId antenna k s5)"
    have h: "healAttempt rt siteId antenna k s = (serviceOf antenna r2 = Some ''Available'', s12)"
      using False by (simp add: healAttempt_def case_prod_beta r1_def s5_def r2_def s12_def)
    obtain a where a: "trace (world s12) =
          trace (world s5) @ [Request (Rru siteId antenna ''off''), Request (Rru siteId antenna ''on''), Response a]"
        "r2 = (case a of None \<Rightarrow> None | Some snap \<Rightarrow> map_of snap siteId)"
      using resetCheck_trace [of rt siteId antenna k s5] unfolding r2_def s12_def by auto
    let ?new = "Request (Rru siteId antenna ''on'') # n1 @
                [Request (Rru siteId antenna ''off''), Request (Rru siteId antenna ''on''), Response a]"
    have t: "trace (world s12) = trace (world s) @ ?new"
      using a(1) n1(1) by simp
    have rq: "requestsIn ?new = fullAttempt siteId antenna"
      using n1(2) by (simp add: fullAttempt_def)
    have "serviceOf antenna r2 = Some ''Available'' \<longrightarrow> endsOnSuccess siteId antenna ?new"
    proof
      assume av: "serviceOf antenna r2 = Some ''Available''"
      then obtain st where "r2 = Some st" using serviceOf_Some_site by blast
      with a(2) obtain snap where sn: "a = Some snap" "map_of snap siteId = r2"
        by (cases a) auto
      with av have "serviceOf antenna (map_of snap siteId) = Some ''Available''" by simp
      from endsOnSuccess_last [OF this, of "[]"
            "Request (Rru siteId antenna ''on'') # n1 @
               [Request (Rru siteId antenna ''off''), Request (Rru siteId antenna ''on'')]"] sn(1)
      show "endsOnSuccess siteId antenna ?new" by simp
    qed
    with h t rq show ?thesis by auto
  qed
qed

lemma healLoop_io:
  "\<exists>new. trace (world (snd (healLoop rt siteId antenna k n s))) = trace (world s) @ new \<and>
     (fst (healLoop rt siteId antenna k n s) = \<lparr> ok = True, error = None \<rparr> \<and>
        endsOnSuccess siteId antenna new \<and>
        (\<exists>j<n. requestsIn new = concat (replicate j (fullAttempt siteId antenna)) @ [Rru siteId antenna ''on''] \<or>
               requestsIn new = concat (replicate (Suc j) (fullAttempt siteId antenna)))
      \<or>
      fst (healLoop rt siteId antenna k n s) = \<lparr> ok = False, error = Some ''rru_unavailable'' \<rparr> \<and>
        requestsIn new = concat (replicate n (fullAttempt siteId antenna)))"
proof (induction n arbitrary: k s)
  case 0
  show ?case by simp
next
  case (Suc n)
  define b where "b = fst (healAttempt rt siteId antenna k s)"
  define s' where "s' = snd (healAttempt rt siteId antenna k s)"
  obtain n1 where n1: "trace (world s') = trace (world s) @ n1"
      "b \<longrightarrow> endsOnSuccess siteId antenna n1 \<and>
           (requestsIn n1 = [Rru siteId antenna ''on''] \<or> requestsIn n1 = fullAttempt siteId antenna)"
      "\<not> b \<longrightarrow> requestsIn n1 = fullAttempt siteId antenna"
    using healAttempt_io [of rt siteId antenna k s] unfolding b_def s'_def by auto
  show ?case
  proof (cases b)
    case True
    then have h: "healLoop rt siteId antenna k (Suc n) s = (\<lparr> ok = True, error = None \<rparr>, s')"
      by (simp add: case_prod_beta b_def s'_def)
    from True n1(2) have "requestsIn n1 = concat (replicate 0 (fullAttempt siteId antenna)) @ [Rru siteId antenna ''on''] \<or>
        requestsIn n1 = concat (replicate (Suc 0) (fullAttempt siteId antenna))"
      by auto
    then have "\<exists>j<Suc n. requestsIn n1 = concat (replicate j (fullAttempt siteId antenna)) @ [Rru siteId antenna ''on''] \<or>
        requestsIn n1 = concat (replicate (Suc j) (fullAttempt siteId antenna))"
      by blast
    with True n1 h show ?thesis by auto
  next
    case False
    then have h: "healLoop rt siteId antenna k (Suc n) s = healLoop rt siteId antenna (k + 1) n s'"
      by (simp add: case_prod_beta b_def s'_def)
    from False n1(3) have f1: "requestsIn n1 = fullAttempt siteId antenna" by simp
    from Suc.IH [of "k + 1" s'] obtain n2 where n2:
        "trace (world (snd (healLoop rt siteId antenna (k + 1) n s'))) = trace (world s') @ n2"
        "fst (healLoop rt siteId antenna (k + 1) n s') = \<lparr> ok = True, error = None \<rparr> \<and>
           endsOnSuccess siteId antenna n2 \<and>
           (\<exists>j<n. requestsIn n2 = concat (replicate j (fullAttempt siteId antenna)) @ [Rru siteId antenna ''on''] \<or>
                  requestsIn n2 = concat (replicate (Suc j) (fullAttempt siteId antenna)))
         \<or>
         fst (healLoop rt siteId antenna (k + 1) n s') = \<lparr> ok = False, error = Some ''rru_unavailable'' \<rparr> \<and>
           requestsIn n2 = concat (replicate n (fullAttempt siteId antenna))"
      by blast
    have t: "trace (world (snd (healLoop rt siteId antenna k (Suc n) s))) = trace (world s) @ (n1 @ n2)"
      using h n1(1) n2(1) by simp
    from n2(2) show ?thesis
    proof
      assume a: "fst (healLoop rt siteId antenna (k + 1) n s') = \<lparr> ok = True, error = None \<rparr> \<and>
           endsOnSuccess siteId antenna n2 \<and>
           (\<exists>j<n. requestsIn n2 = concat (replicate j (fullAttempt siteId antenna)) @ [Rru siteId antenna ''on''] \<or>
                  requestsIn n2 = concat (replicate (Suc j) (fullAttempt siteId antenna)))"
      then obtain j where j: "j < n"
          "requestsIn n2 = concat (replicate j (fullAttempt siteId antenna)) @ [Rru siteId antenna ''on''] \<or>
           requestsIn n2 = concat (replicate (Suc j) (fullAttempt siteId antenna))"
        by blast
      have "Suc j < Suc n" using j(1) by simp
      moreover have "requestsIn (n1 @ n2) =
            concat (replicate (Suc j) (fullAttempt siteId antenna)) @ [Rru siteId antenna ''on''] \<or>
          requestsIn (n1 @ n2) = concat (replicate (Suc (Suc j)) (fullAttempt siteId antenna))"
        using j(2) f1 by auto
      ultimately have "\<exists>i<Suc n. requestsIn (n1 @ n2) =
            concat (replicate i (fullAttempt siteId antenna)) @ [Rru siteId antenna ''on''] \<or>
          requestsIn (n1 @ n2) = concat (replicate (Suc i) (fullAttempt siteId antenna))"
        by blast
      moreover have "endsOnSuccess siteId antenna (n1 @ n2)"
        using a endsOnSuccess_append by blast
      ultimately show ?thesis using a h t by auto
    next
      assume a: "fst (healLoop rt siteId antenna (k + 1) n s') = \<lparr> ok = False, error = Some ''rru_unavailable'' \<rparr> \<and>
           requestsIn n2 = concat (replicate n (fullAttempt siteId antenna))"
      then have "requestsIn (n1 @ n2) = concat (replicate (Suc n) (fullAttempt siteId antenna))"
        using f1 by simp
      with a h t show ?thesis by auto
    qed
  qed
qed



section \<open>Agent B: the human-in-the-loop branch\<close>

lemma lower_wow_human:
  "toLowerCase ''Human intervention at critical steps'' = ''human intervention at critical steps''"
  by (simp add: toLowerCase_def lowerChar_def)

lemma not_e2e_of_enum:
  "waysOfWorking p \<in> set WOW_OPTIONS \<Longrightarrow> waysOfWorking p \<noteq> ''E2E automation'' \<Longrightarrow> \<not> isE2E p"
  by (auto simp: WOW_OPTIONS_def isE2E_def lower_wow_human)

lemma fetchSite_pending:
  "pending (world s) = Some snap # rest \<Longrightarrow>
   fst (fetchSite siteId s) = map_of snap siteId \<and>
   pending (world (snd (fetchSite siteId s))) = rest \<and>
   trace (world (snd (fetchSite siteId s))) = trace (world s) @ [Response (Some snap)]"
  by (simp add: fetchSite_def getState_def)

lemma mitigateSite_hitl:
  assumes run: "agStatus (agentB s) = Running"
      and hitl: "\<not> isE2E (pol s)"
      and site: "fst (fetchSite siteId s) = Some st"
  shows "fst (mitigateSite rt siteId s) =
           (noFields False (Some ''approval_required''))
             \<lparr> plan := Some (snd (buildPlan siteId (Some st))),
               planAlarms := Some (fst (buildPlan siteId (Some st))),
               siteSeen := Some st \<rparr>"
    and "world (snd (mitigateSite rt siteId s)) = world (snd (fetchSite siteId s))"
    and "approvals (sup (snd (mitigateSite rt siteId s))) = approvals (sup s)"
    and "agentC (snd (mitigateSite rt siteId s)) = agentC s"
    and "processed (snd (mitigateSite rt siteId s)) = processed s"
    and "pol (snd (mitigateSite rt siteId s)) = pol s"
    and "autoEnabled (snd (mitigateSite rt siteId s)) = autoEnabled s"
    and "tasksRouted (sup (snd (mitigateSite rt siteId s))) = tasksRouted (sup s)"
  using run hitl site
  by (simp_all add: mitigateSite_def Let_def case_prod_beta split: option.splits)

text \<open>
  Claim C7. With Agent B running, a stored policy whose \<open>waysOfWorking\<close> is not
  \<open>E2E automation\<close>, and a simulator whose next answer holds the site,
  \<open>mitigateSite(siteId)\<close> returns \<open>{ ok: false, error: 'approval_required', plan,
  alarms, site }\<close> and issues no power or rru request: the device requests sent are
  the ones sent before the call.
\<close>

theorem mitigateSite_hitl_plan_without_device_request:
  assumes "agStatus (agentB s) = Running"
      and "waysOfWorking (pol s) \<in> set WOW_OPTIONS"
      and "waysOfWorking (pol s) \<noteq> ''E2E automation''"
      and "pending (world s) = Some snap # rest"
      and "map_of snap siteId = Some st"
  shows "fst (mitigateSite rt siteId s) =
           \<lparr> ok = False, error = Some ''approval_required'',
             plan = Some (snd (buildPlan siteId (Some st))),
             planAlarms = Some (fst (buildPlan siteId (Some st))),
             siteSeen = Some st, actionsTaken = None, clearedAlarms = None,
             remainingAlarms = None, passes = None, allClear = None \<rparr> \<and>
         requests (world (snd (mitigateSite rt siteId s))) = requests (world s)"
proof -
  have hitl: "\<not> isE2E (pol s)"
    using assms(2,3) by (rule not_e2e_of_enum)
  have site: "fst (fetchSite siteId s) = Some st"
    using fetchSite_pending [OF assms(4), of siteId] assms(5) by simp
  have "requests (world (snd (fetchSite siteId s))) = requests (world s)"
    by (simp add: requests_def)
  with mitigateSite_hitl(1,2) [OF assms(1) hitl site, of rt] show ?thesis
    by (simp add: noFields_def)
qed

theorem mitigateSite_hitl_plan_without_device_request_witness:
  "agStatus (agentB hitlSystem) = Running \<and>
   waysOfWorking (pol hitlSystem) \<in> set WOW_OPTIONS \<and>
   waysOfWorking (pol hitlSystem) \<noteq> ''E2E automation'' \<and>
   pending (world hitlSystem) = Some [(''S1'', outageSite)] # [] \<and>
   map_of [(''S1'', outageSite)] ''S1'' = Some outageSite \<and>
   ok (fst (mitigateSite rt0 ''S1'' hitlSystem)) = False \<and>
   error (fst (mitigateSite rt0 ''S1'' hitlSystem)) = Some ''approval_required'' \<and>
   map_option (map action) (plan (fst (mitigateSite rt0 ''S1'' hitlSystem))) =
     Some [''power.on'', ''rru.ensure'', ''rru.ensure''] \<and>
   siteSeen (fst (mitigateSite rt0 ''S1'' hitlSystem)) = Some outageSite \<and>
   requests (world (snd (mitigateSite rt0 ''S1'' hitlSystem))) = []"
proof -
  have h1: "agStatus (agentB hitlSystem) = Running"
    by (simp add: hitlSystem_def)
  have h2: "waysOfWorking (pol hitlSystem) \<in> set WOW_OPTIONS"
    by (simp add: hitlSystem_def initialSystem_def DEFAULT_POLICY_def WOW_OPTIONS_def)
  have h3: "waysOfWorking (pol hitlSystem) \<noteq> ''E2E automation''"
    by (simp add: hitlSystem_def initialSystem_def DEFAULT_POLICY_def)
  have h4: "pending (world hitlSystem) = Some [(''S1'', outageSite)] # []"
    by (simp add: hitlSystem_def)
  have h5: "map_of [(''S1'', outageSite)] ''S1'' = Some outageSite"
    by simp
  have pl: "map action (snd (buildPlan ''S1'' (Some outageSite))) = [''power.on'', ''rru.ensure'', ''rru.ensure'']"
    by (simp add: buildPlan_def detectAlarms_def hasCode_def outageSite_def battery_def orElse_def Let_def)
  have rq: "requests (world hitlSystem) = []"
    by (simp add: hitlSystem_def requests_def)
  from mitigateSite_hitl_plan_without_device_request [OF h1 h2 h3 h4 h5, of rt0] h1 h2 h3 h4 h5 pl rq
  show ?thesis by simp
qed

section \<open>The orchestration leaves the ledger, the policy and the lifecycle alone\<close>

declare waitAndGet.simps [simp del]

lemma healLoop_fields [simp]:
  "sup (snd (healLoop rt siteId antenna k n s)) = sup s"
  "processed (snd (healLoop rt siteId antenna k n s)) = processed s"
  "agentA (snd (healLoop rt siteId antenna k n s)) = agentA s"
  "agentC (snd (healLoop rt siteId antenna k n s)) = agentC s"
  "pol (snd (healLoop rt siteId antenna k n s)) = pol s"
  "autoEnabled (snd (healLoop rt siteId antenna k n s)) = autoEnabled s"
  "agStatus (agentB (snd (healLoop rt siteId antenna k n s))) = agStatus (agentB s)"
  "tasks (agentB (snd (healLoop rt siteId antenna k n s))) = tasks (agentB s)"
  by (induction n arbitrary: k s; simp add: case_prod_beta split: bool.splits)+

lemma healRadio_fields [simp]:
  "sup (snd (healRadio rt siteId antenna s)) = sup s"
  "processed (snd (healRadio rt siteId antenna s)) = processed s"
  "agentA (snd (healRadio rt siteId antenna s)) = agentA s"
  "agentC (snd (healRadio rt siteId antenna s)) = agentC s"
  "pol (snd (healRadio rt siteId antenna s)) = pol s"
  "autoEnabled (snd (healRadio rt siteId antenna s)) = autoEnabled s"
  "agStatus (agentB (snd (healRadio rt siteId antenna s))) = agStatus (agentB s)"
  "tasks (agentB (snd (healRadio rt siteId antenna s))) = tasks (agentB s)"
  by (simp_all add: healRadio_def)

lemma sameConfig_refl [simp]: "sameConfig s s"
  by (simp add: sameConfig_def)

lemma sameConfig_trans: "sameConfig s s1 \<Longrightarrow> sameConfig s1 s2 \<Longrightarrow> sameConfig s s2"
  by (simp add: sameConfig_def)

lemma sameConfig_prims [simp]:
  "sameConfig s s1 \<Longrightarrow> sameConfig s (supervisor_log rt m s1)"
  "sameConfig s s1 \<Longrightarrow> sameConfig s (supervisorNote rt m s1)"
  "sameConfig s s1 \<Longrightarrow> sameConfig s (logB rt m s1)"
  "sameConfig s s1 \<Longrightarrow> sameConfig s (logC rt m s1)"
  "sameConfig s s1 \<Longrightarrow> sameConfig s (sleep ms s1)"
  "sameConfig s s1 \<Longrightarrow> sameConfig s (sendRru a b c s1)"
  "sameConfig s s1 \<Longrightarrow> sameConfig s (sendPower a b s1)"
  "sameConfig s s1 \<Longrightarrow> sameConfig s (snd (fetchSite siteId s1))"
  "sameConfig s s1 \<Longrightarrow> sameConfig s (snd (waitAndGet siteId n ms s1))"
  "sameConfig s s1 \<Longrightarrow> sameConfig s (snd (healRadio rt siteId antenna s1))"
  by (simp_all add: sameConfig_def)

lemma applyStep_same [simp]: "sameConfig s s1 \<Longrightarrow> sameConfig s (snd (applyStep rt st s1))"
  by (simp add: applyStep_def)

lemma firstPass_same [simp]: "sameConfig s s1 \<Longrightarrow> sameConfig s (snd (firstPass rt sts taken s1))"
  by (induction sts arbitrary: taken s1) (simp_all add: case_prod_beta)

lemma healSweep_same [simp]: "sameConfig s s1 \<Longrightarrow> sameConfig s (snd (healSweep rt siteId ras taken s1))"
  by (induction ras arbitrary: taken s1) (simp_all add: case_prod_beta Let_def)

lemma sweeps_same [simp]: "sameConfig s s1 \<Longrightarrow> sameConfig s (snd (sweeps rt siteId n pass st taken s1))"
  by (induction n arbitrary: pass st taken s1) (simp_all add: case_prod_beta Let_def)

lemma agentB_update_same [simp]:
  "sameConfig s s1 \<Longrightarrow> sameConfig s (s1\<lparr> agentB := b \<rparr>)"
  "sameConfig s s1 \<Longrightarrow> sameConfig s (s1\<lparr> agentA := a \<rparr>)"
  "sameConfig s s1 \<Longrightarrow> sameConfig s (s1\<lparr> agentC := c \<rparr>)"
  by (simp_all add: sameConfig_def)

lemma executePlan_same [simp]:
  "sameConfig s s1 \<Longrightarrow> sameConfig s (snd (executePlan rt siteId st0 as steps s1))"
  by (simp add: executePlan_def case_prod_beta Let_def)

lemma mitigateSite_same [simp]: "sameConfig s s1 \<Longrightarrow> sameConfig s (snd (mitigateSite rt siteId s1))"
  by (simp add: mitigateSite_def case_prod_beta Let_def split: option.splits)

lemma recordIncident_same [simp]:
  "sameConfig s s1 \<Longrightarrow> sameConfig s (snd (recordIncident rt siteId c acts r s1))"
  by (simp add: recordIncident_def case_prod_beta Let_def split: bool.splits)

lemma correlate_same [simp]: "sameConfig s s1 \<Longrightarrow> sameConfig s (snd (correlate rt evs s1))"
  by (simp add: correlate_def Let_def)

lemma start_same [simp]:
  "sameConfig s s1 \<Longrightarrow> sameConfig s (startA rt s1)"
  "sameConfig s s1 \<Longrightarrow> sameConfig s (startB rt s1)"
  "sameConfig s s1 \<Longrightarrow> sameConfig s (startC rt s1)"
  by (simp_all add: startA_def startB_def startC_def)

lemma addApprovalRequest_same [simp]:
  "sameConfig s s1 \<Longrightarrow> sameConfig s (snd (addApprovalRequest rt siteId acts why s1))"
  by (simp add: addApprovalRequest_def Let_def sameConfig_def)

lemma incrementTasksRouted_same [simp]:
  "sameConfig s s1 \<Longrightarrow> sameConfig s (incrementTasksRouted n s1)"
  by (simp add: incrementTasksRouted_def sameConfig_def)

lemma hitlPath_same [simp]: "sameConfig s s1 \<Longrightarrow> sameConfig s (hitlPath rt siteId s1)"
  by (simp add: hitlPath_def case_prod_beta)

lemma autoPath_same [simp]: "sameConfig s s1 \<Longrightarrow> sameConfig s (autoPath rt siteId s1)"
  by (simp add: autoPath_def case_prod_beta)

lemma routeEvent_same [simp]: "sameConfig s s1 \<Longrightarrow> sameConfig s (routeEvent rt evt siteId s1)"
  by (simp add: routeEvent_def case_prod_beta Let_def)

lemma orchestrate_same [simp]: "sameConfig s s1 \<Longrightarrow> sameConfig s (orchestrate rt evt s1)"
  by (simp add: orchestrate_def Let_def split: option.splits)

section \<open>Supervisor: the duplicate ledger\<close>

lemma map_of_filter_keep:
  "map_of m k = Some v \<Longrightarrow> P (k, v) \<Longrightarrow> map_of (filter P m) k = Some v"
  by (induction m) (auto split: if_splits)

lemma remember_has: "map_of (processed (remember eid s)) eid = Some (clock (world s))"
proof -
  have a: "map_of (AList.update eid (clock (world s)) (processed s)) eid = Some (clock (world s))"
    by (simp add: update_conv')
  have "map_of (filter (\<lambda>(k, v). \<not> v < clock (world s) - PROCESSED_TTL_MS)
                  (AList.update eid (clock (world s)) (processed s))) eid = Some (clock (world s))"
    by (rule map_of_filter_keep [OF a]) (simp add: PROCESSED_TTL_MS_def)
  with a show ?thesis by (simp add: remember_def Let_def)
qed

lemma handleEvent_remembers: "map_of (processed (handleEvent rt e s)) (eventId e) \<noteq> None"
proof (cases "map_of (processed s) (eventId e) \<noteq> None")
  case True
  then show ?thesis by (simp add: handleEvent_def)
next
  case False
  have "sameConfig (remember (eventId e) s) (orchestrate rt e (remember (eventId e) s))"
    by simp
  then have "processed (orchestrate rt e (remember (eventId e) s)) = processed (remember (eventId e) s)"
    by (simp add: sameConfig_def)
  with False show ?thesis by (simp add: handleEvent_def remember_has)
qed

lemma eventId_same_key:
  "evType e2 = evType e1 \<Longrightarrow> evSiteId e2 = evSiteId e1 \<Longrightarrow> evAlarm e2 = evAlarm e1 \<Longrightarrow>
   orStr (evTimestamp e2) (evTs e2) = orStr (evTimestamp e1) (evTs e1) \<Longrightarrow> eventId e2 = eventId e1"
  by (simp add: eventId_def)



section \<open>Supervisor: the auto path under a human-intervention policy\<close>

lemma agent_start_more [simp]:
  "casebook (snd (agent_start rt now ag)) = casebook ag"
  "lastBySite (snd (agent_start rt now ag)) = lastBySite ag"
  by (simp_all add: agent_start_def agent_log_def)

lemma agent_start_running [simp]: "agStatus (snd (agent_start rt now ag)) = Running"
  by (simp add: agent_start_def agent_log_def)

lemma startB_fields [simp]:
  "sup (startB rt s) = sup s"
  "processed (startB rt s) = processed s"
  "agentA (startB rt s) = agentA s"
  "agentC (startB rt s) = agentC s"
  "pol (startB rt s) = pol s"
  "autoEnabled (startB rt s) = autoEnabled s"
  "world (startB rt s) = world s"
  "agStatus (agentB (startB rt s)) = Running"
  by (simp_all add: startB_def)

lemma startA_fields [simp]:
  "sup (startA rt s) = sup s"
  "processed (startA rt s) = processed s"
  "agentB (startA rt s) = agentB s"
  "agentC (startA rt s) = agentC s"
  "pol (startA rt s) = pol s"
  "autoEnabled (startA rt s) = autoEnabled s"
  "world (startA rt s) = world s"
  by (simp_all add: startA_def)

lemma correlate_fields [simp]:
  "sup (snd (correlate rt evs s)) = sup s"
  "processed (snd (correlate rt evs s)) = processed s"
  "agentB (snd (correlate rt evs s)) = agentB s"
  "agentC (snd (correlate rt evs s)) = agentC s"
  "pol (snd (correlate rt evs s)) = pol s"
  "autoEnabled (snd (correlate rt evs s)) = autoEnabled s"
  "world (snd (correlate rt evs s)) = world s"
  "fst (correlate rt evs s) = correlateIncidents rt (pol s) (windowMs (agentA s)) evs"
  by (simp_all add: correlate_def Let_def)

lemma incrementTasksRouted_fields [simp]:
  "processed (incrementTasksRouted n s) = processed s"
  "agentA (incrementTasksRouted n s) = agentA s"
  "agentB (incrementTasksRouted n s) = agentB s"
  "agentC (incrementTasksRouted n s) = agentC s"
  "pol (incrementTasksRouted n s) = pol s"
  "autoEnabled (incrementTasksRouted n s) = autoEnabled s"
  "world (incrementTasksRouted n s) = world s"
  "approvals (sup (incrementTasksRouted n s)) = approvals (sup s)"
  "tasksRouted (sup (incrementTasksRouted n s)) = tasksRouted (sup s) + n"
  by (simp_all add: incrementTasksRouted_def)

lemma remember_fields [simp]:
  "sup (remember eid s) = sup s"
  "agentA (remember eid s) = agentA s"
  "agentB (remember eid s) = agentB s"
  "agentC (remember eid s) = agentC s"
  "pol (remember eid s) = pol s"
  "autoEnabled (remember eid s) = autoEnabled s"
  "world (remember eid s) = world s"
  by (simp_all add: remember_def Let_def)

text \<open>A single event that the filter keeps gives one incident.\<close>

lemma correlate_single_kept:
  "keeps p e \<Longrightarrow> correlateIncidents rt p w [e] = [newIncident (ceSiteId e) e]"
  by (simp add: correlateIncidents_def groupBySite_def sortByTime_def)

text \<open>What \<open>recordIncident\<close> does for a site and cause that are not noise.\<close>

lemma recordIncident_fields [simp]:
  "approvals (sup (snd (recordIncident rt siteId c acts r s))) = approvals (sup s)"
  "tasksRouted (sup (snd (recordIncident rt siteId c acts r s))) = tasksRouted (sup s)"
  "agentA (snd (recordIncident rt siteId c acts r s)) = agentA s"
  "agentB (snd (recordIncident rt siteId c acts r s)) = agentB s"
  "processed (snd (recordIncident rt siteId c acts r s)) = processed s"
  "pol (snd (recordIncident rt siteId c acts r s)) = pol s"
  "autoEnabled (snd (recordIncident rt siteId c acts r s)) = autoEnabled s"
  "requestsIn (trace (world (snd (recordIncident rt siteId c acts r s)))) = requestsIn (trace (world s))"
  by (simp_all add: recordIncident_def Let_def case_prod_beta split: bool.splits)

lemma dedup_last:
  "\<exists>l. map_of (lastBySite (snd (dedup siteId c r now ag))) siteId = Some l \<and>
       lastCause l = c \<and> lastResolution l = r"
  by (cases "map_of (lastBySite ag) siteId") (auto simp: dedup_def update_conv')

lemma dedup_fields [simp]:
  "casebook (snd (dedup siteId c r now ag)) = casebook ag"
  "agStatus (snd (dedup siteId c r now ag)) = agStatus ag"
  by (cases "map_of (lastBySite ag) siteId"; simp add: dedup_def)+

lemma dedup_other_resolution:
  "map_of (lastBySite ag) siteId = Some l \<Longrightarrow> lastResolution l \<noteq> r \<Longrightarrow> \<not> fst (dedup siteId c r now ag)"
  by (simp add: dedup_def)

lemma recordIncident_last:
  assumes "\<not> isNoise siteId c"
  shows "\<exists>l. map_of (lastBySite (agentC (snd (recordIncident rt siteId c acts r s)))) siteId = Some l \<and>
             lastResolution l = r"
proof -
  define s1 where "s1 = (if agStatus (agentC s) \<noteq> Running
                then s\<lparr> agentC := snd (agent_start rt (clock (world s)) (agentC s)) \<rparr> else s)"
  define d where "d = dedup siteId (String c) r (clock (world s1)) (agentC s1)"
  obtain l where l: "map_of (lastBySite (snd d)) siteId = Some l" "lastResolution l = r"
    using dedup_last [of siteId "String c" r "clock (world s1)" "agentC s1"] unfolding d_def by blast
  have "lastBySite (agentC (snd (recordIncident rt siteId c acts r s))) = lastBySite (snd d)"
    using assms unfolding recordIncident_def Let_def s1_def [symmetric] d_def [symmetric]
    by (simp add: case_prod_beta Let_def split: bool.splits)
  with l show ?thesis by auto
qed

lemma recordIncident_casebook:
  "casebook (agentC (snd (recordIncident rt siteId c acts r s))) = casebook (agentC s) \<or>
   (\<exists>item. casebook (agentC (snd (recordIncident rt siteId c acts r s))) = casebook (agentC s) @ [item])"
  by (simp add: recordIncident_def Let_def case_prod_beta split: bool.splits)

lemma recordIncident_pending:
  "pending (world (snd (recordIncident rt siteId c acts r s))) = pending (world s) \<or>
   pending (world (snd (recordIncident rt siteId c acts r s))) = tl (pending (world s))"
  by (simp add: recordIncident_def Let_def case_prod_beta fetchSite_eval split: bool.splits)

lemma recordIncident_accepts:
  assumes "\<not> isNoise siteId c"
      and "map_of (lastBySite (agentC s)) siteId = Some l"
      and "lastResolution l \<noteq> r"
  shows "\<exists>item. casebook (agentC (snd (recordIncident rt siteId c acts r s))) = casebook (agentC s) @ [item] \<and>
           caseSiteId item = siteId \<and> resolution item = r \<and>
           dispatchSuggested item = (r \<noteq> ''restored'' \<or>
              detectAlarmsFromSite (fst (fetchSite siteId s)) \<noteq> [])"
proof -
  define s1 where "s1 = (if agStatus (agentC s) \<noteq> Running
                then s\<lparr> agentC := snd (agent_start rt (clock (world s)) (agentC s)) \<rparr> else s)"
  have l1: "map_of (lastBySite (agentC s1)) siteId = Some l"
    using assms(2) by (simp add: s1_def)
  have cb: "casebook (agentC s1) = casebook (agentC s)"
    by (simp add: s1_def)
  have w: "world s1 = world s"
    by (simp add: s1_def)
  define d where "d = dedup siteId (String c) r (clock (world s1)) (agentC s1)"
  have nd: "\<not> fst d"
    unfolding d_def using l1 assms(3) by (rule dedup_other_resolution)
  have fs: "fst (fetchSite siteId (s1\<lparr> agentC := snd d \<rparr>)) = fst (fetchSite siteId s)"
    using w by (simp add: fetchSite_eval)
  have cd: "casebook (snd d) = casebook (agentC s1)"
    by (simp add: d_def)
  show ?thesis
    using assms(1) nd cb fs cd
    unfolding recordIncident_def Let_def s1_def [symmetric] d_def [symmetric]
    by (simp add: case_prod_beta Let_def d_def [symmetric] split: bool.splits)
qed

lemma keeps_probe_time:
  "keeps p (probeEvent evt siteId t1) = keeps p (probeEvent evt siteId t2)"
  by (simp add: keeps_def probeEvent_def eventCode_def)

lemma keeps_probe_site:
  "keeps p (probeEvent evt siteId t) \<Longrightarrow> siteId \<noteq> [] \<and> siteId \<noteq> ''unknown''"
  by (auto simp: keeps_def probeEvent_def orElse_def)

lemma cluster_not_noise:
  "siteId \<noteq> [] \<Longrightarrow> siteId \<noteq> ''unknown'' \<Longrightarrow> \<not> isNoise siteId (Some ''correlated_alarm_cluster'')"
  by (simp add: isNoise_def strOr_def NOISE_CAUSES_def toLowerCase_def lowerChar_def)

lemma human_not_e2e:
  "waysOfWorking p = ''Human intervention at critical steps'' \<Longrightarrow> \<not> isE2E p"
  by (simp add: isE2E_def lower_wow_human)

text \<open>
  The auto path when the policy is not E2E: Agent B answers \<open>approval_required\<close>, and
  the Supervisor records \<open>stabilized\<close>.
\<close>

lemma autoPath_under_hitl_policy:
  assumes hitl: "\<not> isE2E (pol s)"
      and site: "fst (fetchSite siteId s) = Some st"
  shows "\<exists>sB. agStatus (agentB sB) = Running \<and>
           error (fst (mitigateSite rt siteId sB)) = Some ''approval_required'' \<and>
           agentC (snd (mitigateSite rt siteId sB)) = agentC s \<and>
           approvals (sup (snd (mitigateSite rt siteId sB))) = approvals (sup s) \<and>
           tasksRouted (sup (snd (mitigateSite rt siteId sB))) = tasksRouted (sup s) + 1 \<and>
           requestsIn (trace (world (snd (mitigateSite rt siteId sB)))) = requestsIn (trace (world s)) \<and>
           fst (fetchSite siteId (snd (mitigateSite rt siteId sB))) =
             fst (fetchSite siteId (snd (fetchSite siteId s))) \<and>
           autoPath rt siteId s =
             supervisor_log rt (''Agent C: stabilized/dispatch-suggested recorded for '' @ siteId)
               (snd (recordIncident rt siteId (Some ''correlated_alarm_cluster'') [] ''stabilized''
                       (snd (mitigateSite rt siteId sB))))"
proof -
  define sB where "sB = supervisor_log rt (''Agent B: mitigating '' @ siteId @ ellipsis)
                          (incrementTasksRouted 1 (startB rt s))"
  have run: "agStatus (agentB sB) = Running" by (simp add: sB_def)
  have pl: "\<not> isE2E (pol sB)" using hitl by (simp add: sB_def)
  have w: "world sB = world s" by (simp add: sB_def)
  have fs: "fst (fetchSite siteId sB) = Some st"
    using site w by (simp add: fetchSite_eval)
  note m = mitigateSite_hitl [OF run pl fs, of rt]
  have e: "error (fst (mitigateSite rt siteId sB)) = Some ''approval_required''"
    using m(1) by (simp add: noFields_def)
  have o: "\<not> ok (fst (mitigateSite rt siteId sB))"
    using m(1) by (simp add: noFields_def)
  have at: "actionsTaken (fst (mitigateSite rt siteId sB)) = None"
    using m(1) by (simp add: noFields_def)
  have c: "agentC (snd (mitigateSite rt siteId sB)) = agentC s"
    using m(4) by (simp add: sB_def)
  have a: "approvals (sup (snd (mitigateSite rt siteId sB))) = approvals (sup s)"
    using m(3) by (simp add: sB_def)
  have t: "tasksRouted (sup (snd (mitigateSite rt siteId sB))) = tasksRouted (sup s) + 1"
    using m(8) by (simp add: sB_def)
  have r: "requestsIn (trace (world (snd (mitigateSite rt siteId sB)))) = requestsIn (trace (world s))"
    using m(2) w by (simp add: fetchSite_eval)
  have f: "fst (fetchSite siteId (snd (mitigateSite rt siteId sB))) =
             fst (fetchSite siteId (snd (fetchSite siteId s)))"
    using m(2) w by (simp add: fetchSite_eval)
  have ap: "autoPath rt siteId s =
             supervisor_log rt (''Agent C: stabilized/dispatch-suggested recorded for '' @ siteId)
               (snd (recordIncident rt siteId (Some ''correlated_alarm_cluster'') [] ''stabilized''
                       (snd (mitigateSite rt siteId sB))))"
    unfolding autoPath_def sB_def [symmetric] using o at
    by (simp add: case_prod_beta orElse_def)
  from run e c a t r f ap show ?thesis by blast
qed


text \<open>
  Claim C10. The Supervisor is running, the event is new to the ledger, actionable and
  kept by Agent A's filter, the manual auto toggle is on, the policy is
  \<open>Human intervention at critical steps\<close>, and the simulator's next two answers hold
  the site. Then \<open>handleEvent\<close> takes the auto path (\<open>tasksRouted\<close> grows by
  one), the call of \<open>mitigateSite\<close> on that path returns \<open>approval_required\<close>, no
  approval is enqueued, no device request is issued, and the casebook of Agent C ends with
  a new case of the site with resolution \<open>stabilized\<close> and dispatch suggested (after
  the \<open>investigating\<close> case, when that one was not suppressed as a repeat).
\<close>

theorem auto_toggle_under_hitl_policy_records_stabilized:
  assumes running: "status (sup s) = Running"
      and fresh: "map_of (processed s) (eventId evt) = None"
      and sid: "siteIdOf evt = Some siteId"
      and actionable: "evType evt = Some ''alarm.raised'' \<or> evType evt = Some ''service.changed''"
      and kept: "keeps (pol s) (probeEvent evt siteId (safeNowIso rt s))"
      and toggle: "autoEnabled s"
      and policy: "waysOfWorking (pol s) = ''Human intervention at critical steps''"
      and tower: "pending (world s) = Some snap1 # Some snap2 # rest"
                 "map_of snap1 siteId = Some st1" "map_of snap2 siteId = Some st2"
  shows "\<exists>sB cs c.
           error (fst (mitigateSite rt siteId sB)) = Some ''approval_required'' \<and>
           handleEvent rt evt s =
             supervisor_log rt (''Agent C: stabilized/dispatch-suggested recorded for '' @ siteId)
               (snd (recordIncident rt siteId (Some ''correlated_alarm_cluster'') [] ''stabilized''
                       (snd (mitigateSite rt siteId sB)))) \<and>
           approvals (sup (handleEvent rt evt s)) = approvals (sup s) \<and>
           requests (world (handleEvent rt evt s)) = requests (world s) \<and>
           tasksRouted (sup (handleEvent rt evt s)) = tasksRouted (sup s) + 1 \<and>
           casebook (agentC (handleEvent rt evt s)) = casebook (agentC s) @ cs @ [c] \<and>
           length cs \<le> 1 \<and>
           caseSiteId c = siteId \<and> resolution c = ''stabilized'' \<and> dispatchSuggested c"
proof -
  define s1 where "s1 = supervisor_log rt (''bus.event '' @ arrow @ '' '' @ eventJson evt)
                          (remember (eventId evt) s)"
  have h1: "handleEvent rt evt s = routeEvent rt evt siteId s1"
    using fresh running sid actionable
    unfolding handleEvent_def orchestrate_def Let_def s1_def [symmetric]
    by (auto simp: s1_def)
  define sA where "sA = startA rt s1"
  have wA: "world sA = world s" by (simp add: sA_def s1_def)
  have pA: "pol sA = pol s" by (simp add: sA_def s1_def)
  have k: "keeps (pol sA) (probeEvent evt siteId (safeNowIso rt sA))"
    using kept keeps_probe_time [of "pol s" evt siteId "safeNowIso rt sA" "safeNowIso rt s"] pA by simp
  have inc: "fst (correlate rt [probeEvent evt siteId (safeNowIso rt sA)] sA) \<noteq> []"
    using k by (simp add: correlate_single_kept)
  define s3 where "s3 = supervisor_log rt (''Agent A: '' @ siteId @ '' '' @ arrow @ '' '' @
        showNat (length (fst (correlate rt [probeEvent evt siteId (safeNowIso rt sA)] sA))) @ '' incident(s)'')
        (snd (correlate rt [probeEvent evt siteId (safeNowIso rt sA)] sA))"
  define s4 where "s4 = snd (recordIncident rt siteId (Some ''correlated_alarm_cluster'') [] ''investigating'' s3)"
  define s5 where "s5 = supervisor_log rt (''Agent C: investigating recorded for '' @ siteId) s4"
  have c3: "agentC s3 = agentC s" "approvals (sup s3) = approvals (sup s)"
      "tasksRouted (sup s3) = tasksRouted (sup s)" "world s3 = world s" "pol s3 = pol s"
      "autoEnabled s3 = autoEnabled s"
    by (simp_all add: s3_def sA_def s1_def)
  have auto5: "autoEffective s5"
    using toggle c3(6) by (simp add: autoEffective_def s5_def s4_def)
  have h2: "routeEvent rt evt siteId s1 = autoPath rt siteId s5"
    unfolding routeEvent_def Let_def case_prod_beta sA_def [symmetric] s3_def [symmetric]
      s4_def [symmetric] s5_def [symmetric]
    using inc auto5 by simp
  have nn: "\<not> isNoise siteId (Some ''correlated_alarm_cluster'')"
    using keeps_probe_site [OF kept] cluster_not_noise by blast
  obtain l where l: "map_of (lastBySite (agentC s4)) siteId = Some l" "lastResolution l = ''investigating''"
    using recordIncident_last [OF nn, of rt "[]" "''investigating''" s3] unfolding s4_def by blast
  have cb4: "casebook (agentC s4) = casebook (agentC s) \<or>
             (\<exists>item. casebook (agentC s4) = casebook (agentC s) @ [item])"
    using recordIncident_casebook [of rt siteId "Some ''correlated_alarm_cluster''" "[]" "''investigating''" s3] c3(1)
    unfolding s4_def by simp
  then obtain cs where cs: "casebook (agentC s4) = casebook (agentC s) @ cs" "length cs \<le> 1"
    by (metis append_Nil2 length_Cons list.size(3) le_refl zero_le_one One_nat_def)
  have p4: "pending (world s4) = pending (world s) \<or> pending (world s4) = tl (pending (world s))"
    using recordIncident_pending [of rt siteId "Some ''correlated_alarm_cluster''" "[]" "''investigating''" s3] c3(4)
    unfolding s4_def by simp
  have f5: "\<exists>st. fst (fetchSite siteId s5) = Some st"
    using p4 tower by (auto simp: fetchSite_eval s5_def)
  then obtain st where st: "fst (fetchSite siteId s5) = Some st" by blast
  have hitl5: "\<not> isE2E (pol s5)"
    using human_not_e2e [OF policy] c3(5) by (simp add: s5_def s4_def)
  obtain sB where sB: "error (fst (mitigateSite rt siteId sB)) = Some ''approval_required''"
      "agentC (snd (mitigateSite rt siteId sB)) = agentC s5"
      "approvals (sup (snd (mitigateSite rt siteId sB))) = approvals (sup s5)"
      "tasksRouted (sup (snd (mitigateSite rt siteId sB))) = tasksRouted (sup s5) + 1"
      "requestsIn (trace (world (snd (mitigateSite rt siteId sB)))) = requestsIn (trace (world s5))"
      "autoPath rt siteId s5 =
         supervisor_log rt (''Agent C: stabilized/dispatch-suggested recorded for '' @ siteId)
           (snd (recordIncident rt siteId (Some ''correlated_alarm_cluster'') [] ''stabilized''
                   (snd (mitigateSite rt siteId sB))))"
    using autoPath_under_hitl_policy [OF hitl5 st, of rt] by blast
  define s6 where "s6 = snd (mitigateSite rt siteId sB)"
  have l6: "map_of (lastBySite (agentC s6)) siteId = Some l"
    using l(1) sB(2) by (simp add: s6_def s5_def)
  obtain c where c: "casebook (agentC (snd (recordIncident rt siteId (Some ''correlated_alarm_cluster'') []
                         ''stabilized'' s6))) = casebook (agentC s6) @ [c]"
      "caseSiteId c = siteId" "resolution c = ''stabilized''"
      "dispatchSuggested c = (''stabilized'' \<noteq> ''restored'' \<or>
          detectAlarmsFromSite (fst (fetchSite siteId s6)) \<noteq> [])"
    using recordIncident_accepts [OF nn l6, of "''stabilized''" rt "[]"] l(2) by auto
  have fin: "handleEvent rt evt s =
      supervisor_log rt (''Agent C: stabilized/dispatch-suggested recorded for '' @ siteId)
        (snd (recordIncident rt siteId (Some ''correlated_alarm_cluster'') [] ''stabilized'' s6))"
    using h1 h2 sB(6) by (simp add: s6_def)
  have a: "approvals (sup (handleEvent rt evt s)) = approvals (sup s)"
    unfolding fin using sB(3) c3(2) by (simp add: s6_def s5_def s4_def)
  have r: "requests (world (handleEvent rt evt s)) = requests (world s)"
    unfolding fin using sB(5) c3(4) by (simp add: requests_def s6_def s5_def s4_def)
  have t: "tasksRouted (sup (handleEvent rt evt s)) = tasksRouted (sup s) + 1"
    unfolding fin using sB(4) c3(3) by (simp add: s6_def s5_def s4_def)
  have cb: "casebook (agentC (handleEvent rt evt s)) = casebook (agentC s) @ cs @ [c]"
    unfolding fin using c(1) cs(1) sB(2) by (simp add: s6_def s5_def)
  have d: "dispatchSuggested c" using c(4) by simp
  from sB(1) fin a r t cb cs(2) c(2,3) d show ?thesis
    unfolding s6_def by blast
qed

lemma ensureAgentsRunning_fields [simp]:
  "sup (ensureAgentsRunning rt s) = sup s"
  "processed (ensureAgentsRunning rt s) = processed s"
  "pol (ensureAgentsRunning rt s) = pol s"
  "autoEnabled (ensureAgentsRunning rt s) = autoEnabled s"
  "world (ensureAgentsRunning rt s) = world s"
  by (simp_all add: ensureAgentsRunning_def startC_def)

lemma autoSystem_facts:
  "status (sup autoSystem) = Running"
  "processed autoSystem = []"
  "autoEnabled autoSystem"
  "waysOfWorking (pol autoSystem) = ''Human intervention at critical steps''"
  "alarmPrioritization (pol autoSystem) = ''Critical First''"
  "pending (world autoSystem) = Some [(''S1'', outageSite)] # Some [(''S1'', outageSite)] # []"
  "approvals (sup autoSystem) = []"
  "tasksRouted (sup autoSystem) = 0"
  "trace (world autoSystem) = []"
  by (simp_all add: autoSystem_def runningSystem_def initialSystem_def DEFAULT_POLICY_def)

lemma mainsEvent_site: "siteIdOf mainsEvent = Some ''S1''"
  by (simp add: siteIdOf_def mainsEvent_def trim_def isSpace_def)

lemma mainsEvent_kept: "keeps (pol autoSystem) (probeEvent mainsEvent ''S1'' t)"
  by (simp add: keeps_def probeEvent_def eventCode_def mainsEvent_def orElse_def strOr_def orStr_def
        truthy_def isNoiseAlarm_def NOISE_ALARMS_def policyMode_def autoSystem_facts
        isCriticalAlarm_def CRITICAL_PATTERNS_def String_def toLowerCase_def lowerChar_def)

theorem auto_toggle_under_hitl_policy_records_stabilized_witness:
  "status (sup autoSystem) = Running \<and>
   map_of (processed autoSystem) (eventId mainsEvent) = None \<and>
   siteIdOf mainsEvent = Some ''S1'' \<and>
   evType mainsEvent = Some ''alarm.raised'' \<and>
   keeps (pol autoSystem) (probeEvent mainsEvent ''S1'' (safeNowIso rt0 autoSystem)) \<and>
   autoEnabled autoSystem \<and>
   waysOfWorking (pol autoSystem) = ''Human intervention at critical steps'' \<and>
   pending (world autoSystem) = Some [(''S1'', outageSite)] # Some [(''S1'', outageSite)] # [] \<and>
   map_of [(''S1'', outageSite)] ''S1'' = Some outageSite \<and>
   approvals (sup (handleEvent rt0 mainsEvent autoSystem)) = [] \<and>
   requests (world (handleEvent rt0 mainsEvent autoSystem)) = [] \<and>
   tasksRouted (sup (handleEvent rt0 mainsEvent autoSystem)) = 1 \<and>
   caseSiteId (last (casebook (agentC (handleEvent rt0 mainsEvent autoSystem)))) = ''S1'' \<and>
   resolution (last (casebook (agentC (handleEvent rt0 mainsEvent autoSystem)))) = ''stabilized'' \<and>
   dispatchSuggested (last (casebook (agentC (handleEvent rt0 mainsEvent autoSystem))))"
proof -
  have h2: "map_of (processed autoSystem) (eventId mainsEvent) = None"
    by (simp add: autoSystem_facts)
  have h4: "evType mainsEvent = Some ''alarm.raised'' \<or> evType mainsEvent = Some ''service.changed''"
    by (simp add: mainsEvent_def)
  have h4': "evType mainsEvent = Some ''alarm.raised''"
    by (simp add: mainsEvent_def)
  have h9: "map_of [(''S1'', outageSite)] ''S1'' = Some outageSite"
    by simp
  from auto_toggle_under_hitl_policy_records_stabilized
         [OF autoSystem_facts(1) h2 mainsEvent_site h4 mainsEvent_kept autoSystem_facts(3)
             autoSystem_facts(4) autoSystem_facts(6) h9 h9, of rt0]
  obtain cs c where r: "approvals (sup (handleEvent rt0 mainsEvent autoSystem)) = approvals (sup autoSystem)"
      "requests (world (handleEvent rt0 mainsEvent autoSystem)) = requests (world autoSystem)"
      "tasksRouted (sup (handleEvent rt0 mainsEvent autoSystem)) = tasksRouted (sup autoSystem) + 1"
      "casebook (agentC (handleEvent rt0 mainsEvent autoSystem)) = casebook (agentC autoSystem) @ cs @ [c]"
      "caseSiteId c = ''S1''" "resolution c = ''stabilized''" "dispatchSuggested c"
    by blast
  have l: "last (casebook (agentC (handleEvent rt0 mainsEvent autoSystem))) = c"
    using r(4) by simp
  have q: "requests (world autoSystem) = []"
    by (simp add: requests_def autoSystem_facts)
  from autoSystem_facts h2 mainsEvent_site h4' mainsEvent_kept h9 r l q show ?thesis
    by simp
qed

section \<open>Incident bus: who receives a published event\<close>

lemma listenersOn_append [simp]:
  "listenersOn ch (r1 @ r2) = listenersOn ch r1 @ listenersOn ch r2"
  by (simp add: listenersOn_def)

lemma listenersOn_agentA:
  "set (listenersOn ch (concat (replicate n (busOnIncident AgentAOnIncident)))) \<subseteq> {AgentAOnIncident}"
  by (induction n) (auto simp: listenersOn_def busOnIncident_def)

lemma supervisor_only_on_bus_event:
  "SupervisorHandleEvent \<in> set (listenersOn ch (wiring n)) \<Longrightarrow> ch = ''bus.event''"
proof -
  assume a: "SupervisorHandleEvent \<in> set (listenersOn ch (wiring n))"
  have "SupervisorHandleEvent \<notin> set (listenersOn ch (concat (replicate n (busOnIncident AgentAOnIncident))))"
    using listenersOn_agentA [of ch n] by auto
  with a have "SupervisorHandleEvent \<in> set (listenersOn ch (incidentBusWiring @ supervisorWiring))"
    by (simp add: wiring_def)
  then show ?thesis
    by (auto simp: listenersOn_def incidentBusWiring_def supervisorWiring_def supervisorOnIncident_def
             split: if_splits)
qed

text \<open>
  Claim C1, as the code has it. The Supervisor registers its handler on the channel
  \<open>bus.event\<close>, while \<open>publish\<close>, the bridge and the Delta Emitter emit on \<open>event\<close>
  (and on the typed channels): however often Agent A was started, no event published on
  the normalized channel is delivered to the Supervisor's handler, and neither is either
  emission of \<open>#emitBoth\<close> for an alarm or service event.
\<close>

theorem publish_never_reaches_handleEvent:
  "(SupervisorHandleEvent, e) \<notin> set (publish evt (wiring n)) \<and>
   (SupervisorHandleEvent, e) \<notin> set (deliveries (wiring n) (emitBoth ''alarm.raised'' payload)) \<and>
   (SupervisorHandleEvent, e) \<notin> set (deliveries (wiring n) (emitBoth ''alarm.cleared'' payload)) \<and>
   (SupervisorHandleEvent, e) \<notin> set (deliveries (wiring n) (emitBoth ''service.changed'' payload))"
proof -
  have "\<And>ch x. ch \<noteq> ''bus.event'' \<Longrightarrow> (SupervisorHandleEvent, e) \<notin> set (emit ch x (wiring n))"
    using supervisor_only_on_bus_event by (auto simp: emit_def)
  then show ?thesis
    by (simp add: publish_def deliveries_def emitBoth_def)
qed

lemma publish_mainsEvent_deliveries:
  "publish mainsEvent (wiring 1) = [(BusBuffer, mainsEvent), (AgentAOnIncident, mainsEvent)]"
  by (simp add: publish_def emit_def listenersOn_def wiring_def incidentBusWiring_def
        supervisorWiring_def supervisorOnIncident_def busOnIncident_def)


text \<open>
  The theorem at the mains-failure event with Agent A started once: the event reaches
  the bus buffer and Agent A, and not the Supervisor.
\<close>

theorem publish_never_reaches_handleEvent_witness:
  "(SupervisorHandleEvent, mainsEvent) \<notin> set (publish mainsEvent (wiring 1)) \<and>
   publish mainsEvent (wiring 1) = [(BusBuffer, mainsEvent), (AgentAOnIncident, mainsEvent)]"
  using publish_never_reaches_handleEvent [of mainsEvent mainsEvent 1 mainsEvent]
        publish_mainsEvent_deliveries
  by simp
section \<open>Supervisor: the lifecycle commands\<close>

lemma ensureAgentsStopped_fields [simp]:
  "sup (ensureAgentsStopped rt s) = sup s"
  "processed (ensureAgentsStopped rt s) = processed s"
  "pol (ensureAgentsStopped rt s) = pol s"
  "autoEnabled (ensureAgentsStopped rt s) = autoEnabled s"
  "world (ensureAgentsStopped rt s) = world s"
  by (simp_all add: ensureAgentsStopped_def)

lemma handleEvent_lifecycle:
  "status (sup (handleEvent rt evt s)) = status (sup s)"
  "startedAt (sup (handleEvent rt evt s)) = startedAt (sup s)"
  "runtimeSec (sup (handleEvent rt evt s)) = runtimeSec (sup s)"
proof -
  have "sameConfig (remember (eventId evt) s) (orchestrate rt evt (remember (eventId evt) s))"
    by simp
  then show "status (sup (handleEvent rt evt s)) = status (sup s)"
    "startedAt (sup (handleEvent rt evt s)) = startedAt (sup s)"
    "runtimeSec (sup (handleEvent rt evt s)) = runtimeSec (sup s)"
    by (simp_all add: handleEvent_def sameConfig_def)
qed

lemma sweepAlarms_lifecycle:
  "status (sup (sweepAlarms rt xs s)) = status (sup s)"
  by (induction xs arbitrary: s) (auto simp: handleEvent_lifecycle)

lemma coldStartSweep_lifecycle:
  "status (sup (coldStartSweep rt snap s)) = status (sup s)"
  by (simp add: coldStartSweep_def Let_def sweepAlarms_lifecycle split: option.splits)

lemma stop_effect:
  "fst (stop rt s) = ''OK: stopped''"
  "status (sup (snd (stop rt s))) = Stopped"
  "startedAt (sup (snd (stop rt s))) = None"
  "runtimeSec (sup (snd (stop rt s))) =
     (if status (sup s) = Running \<or> status (sup s) = Paused
      then runtimeSec (sup s) + elapsedSec s else runtimeSec (sup s))"
  by (simp_all add: stop_def Let_def)

lemma start_effect:
  "status (sup s) = Running \<Longrightarrow> start rt snap s = (''Already running'', s)"
  "status (sup s) \<noteq> Running \<Longrightarrow> status (sup (snd (start rt snap s))) = Running"
  by (simp_all add: start_def resume_def coldStartSweep_lifecycle)




section \<open>Agent C: the dispatch email\<close>

lemma find_skip_prefix:
  "\<forall>d \<in> set xs. \<not> P d \<Longrightarrow> List.find P (xs @ ys) = List.find P ys"
  by (induction xs) auto

lemma find_latest:
  "P c \<Longrightarrow> \<forall>d \<in> set post. \<not> P d \<Longrightarrow> List.find P (rev (pre @ c # post)) = Some c"
  using find_skip_prefix [of "rev post" P "c # rev pre"] by simp

lemma latestCaseOf_find:
  "latestCaseOf siteId cb c \<Longrightarrow> List.find (countsFor siteId) (rev cb) = Some c"
  unfolding latestCaseOf_def using find_latest [of "countsFor siteId"] by blast

lemma hasCaseOf_latest:
  "hasCaseOf siteId cb \<Longrightarrow> \<exists>c. latestCaseOf siteId cb c"
  unfolding hasCaseOf_def latestCaseOf_def
  using split_list_last_prop [of cb "countsFor siteId"] by blast

lemma no_case_find:
  "\<not> hasCaseOf siteId cb \<Longrightarrow> List.find (countsFor siteId) (rev cb) = None"
  by (simp add: hasCaseOf_def find_None_iff)

lemma latestCaseOf_has: "latestCaseOf siteId cb c \<Longrightarrow> hasCaseOf siteId cb"
  unfolding hasCaseOf_def latestCaseOf_def by auto

lemma countsFor_eta:
  "(\<lambda>c. caseSiteId c = siteId \<and> \<not> isNoise (caseSiteId c) (cause c)) = countsFor siteId"
  by (auto simp: countsFor_def)

lemma composeDispatchEmail_none:
  "List.find (countsFor siteId) (rev (casebook (agentC s))) = None \<Longrightarrow>
   composeDispatchEmail siteId s = (noUnresolvedCase, s)"
  unfolding composeDispatchEmail_def countsFor_eta by (simp add: noUnresolvedCase_def)

lemma composeDispatchEmail_closed:
  "List.find (countsFor siteId) (rev (casebook (agentC s))) = Some c \<Longrightarrow> \<not> dispatchSuggested c \<Longrightarrow>
   composeDispatchEmail siteId s = (noUnresolvedCase, s)"
  unfolding composeDispatchEmail_def countsFor_eta by (simp add: noUnresolvedCase_def)

lemma composeDispatchEmail_open:
  "List.find (countsFor siteId) (rev (casebook (agentC s))) = Some c \<Longrightarrow> dispatchSuggested c \<Longrightarrow>
   ok (fst (composeDispatchEmail siteId s)) \<and>
   error (fst (composeDispatchEmail siteId s)) = None \<and>
   subject (fst (composeDispatchEmail siteId s)) = Some (dispatchSubject siteId c)"
  unfolding composeDispatchEmail_def countsFor_eta
  by (simp add: dispatchSubject_def case_prod_beta Let_def)

text \<open>
  Claim C9, as the code has it. \<open>composeDispatchEmail(siteId)\<close> looks at the most
  recent case of the casebook that counts for the site, whatever its
  \<open>dispatchSuggested\<close>. When that case has \<open>dispatchSuggested\<close>, the email is based on
  it, with the subject \<open>[DISPATCH] siteId - cause - Action required\<close> (the dashes are
  en dashes, and the cause is \<open>Degradation\<close> when the case has none). The result is
  \<open>{ ok: false, error: 'no_unresolved_case' }\<close>, with the state untouched, exactly when
  the site has no case or its most recent case has \<open>dispatchSuggested\<close> false.
\<close>

theorem composeDispatchEmail_most_recent_case:
  "(\<not> hasCaseOf siteId (casebook (agentC s)) \<longrightarrow>
      composeDispatchEmail siteId s = (noUnresolvedCase, s)) \<and>
   (\<forall>c. latestCaseOf siteId (casebook (agentC s)) c \<longrightarrow>
      (dispatchSuggested c \<longrightarrow>
         ok (fst (composeDispatchEmail siteId s)) \<and>
         error (fst (composeDispatchEmail siteId s)) = None \<and>
         subject (fst (composeDispatchEmail siteId s)) = Some (dispatchSubject siteId c)) \<and>
      (\<not> dispatchSuggested c \<longrightarrow> composeDispatchEmail siteId s = (noUnresolvedCase, s))) \<and>
   (error (fst (composeDispatchEmail siteId s)) = Some ''no_unresolved_case'' \<longleftrightarrow>
      \<not> hasCaseOf siteId (casebook (agentC s)) \<or>
      (\<exists>c. latestCaseOf siteId (casebook (agentC s)) c \<and> \<not> dispatchSuggested c))"
proof -
  let ?cb = "casebook (agentC s)"
  have p1: "\<not> hasCaseOf siteId ?cb \<Longrightarrow> composeDispatchEmail siteId s = (noUnresolvedCase, s)"
    using no_case_find composeDispatchEmail_none by blast
  have p2: "\<And>c. latestCaseOf siteId ?cb c \<Longrightarrow> dispatchSuggested c \<Longrightarrow>
         ok (fst (composeDispatchEmail siteId s)) \<and>
         error (fst (composeDispatchEmail siteId s)) = None \<and>
         subject (fst (composeDispatchEmail siteId s)) = Some (dispatchSubject siteId c)"
    using latestCaseOf_find composeDispatchEmail_open by blast
  have p3: "\<And>c. latestCaseOf siteId ?cb c \<Longrightarrow> \<not> dispatchSuggested c \<Longrightarrow>
         composeDispatchEmail siteId s = (noUnresolvedCase, s)"
    using latestCaseOf_find composeDispatchEmail_closed by blast
  have e: "error noUnresolvedCase = Some ''no_unresolved_case''"
    by (simp add: noUnresolvedCase_def)
  have p4: "error (fst (composeDispatchEmail siteId s)) = Some ''no_unresolved_case'' \<longleftrightarrow>
      \<not> hasCaseOf siteId ?cb \<or> (\<exists>c. latestCaseOf siteId ?cb c \<and> \<not> dispatchSuggested c)"
  proof (cases "hasCaseOf siteId ?cb")
    case False
    with p1 e show ?thesis by simp
  next
    case True
    then obtain c where c: "latestCaseOf siteId ?cb c"
      using hasCaseOf_latest by blast
    have u: "d = c" if "latestCaseOf siteId ?cb d" for d
    proof -
      have "List.find (countsFor siteId) (rev ?cb) = Some d"
        using that by (rule latestCaseOf_find)
      moreover have "List.find (countsFor siteId) (rev ?cb) = Some c"
        using c by (rule latestCaseOf_find)
      ultimately show ?thesis by simp
    qed
    show ?thesis
    proof (cases "dispatchSuggested c")
      case True
      with p2 [OF c] u \<open>hasCaseOf siteId ?cb\<close> show ?thesis by auto
    next
      case False
      with p3 [OF c] e c show ?thesis by auto
    qed
  qed
  show ?thesis
    using p1 p2 p3 p4 by (intro conjI allI impI) auto
qed

text \<open>
  The claim as stated fails on a casebook where a stabilized case of S1 with dispatch
  suggested is followed by its restored case: an accepted case of the site has
  \<open>dispatchSuggested\<close>, and the result is \<open>no_unresolved_case\<close>.
\<close>

theorem composeDispatchEmail_ignores_older_unresolved_case:
  "casebook (agentC (casebookSystem [stabilizedCase, restoredCase])) = [stabilizedCase, restoredCase] \<and>
   caseSiteId stabilizedCase = ''S1'' \<and>
   dispatchSuggested stabilizedCase \<and>
   \<not> isNoise (caseSiteId stabilizedCase) (cause stabilizedCase) \<and>
   fst (composeDispatchEmail ''S1'' (casebookSystem [stabilizedCase, restoredCase])) = noUnresolvedCase"
  by (simp add: casebookSystem_def composeDispatchEmail_def stabilizedCase_def restoredCase_def
        isNoise_def strOr_def NOISE_CAUSES_def toLowerCase_def lowerChar_def noUnresolvedCase_def)

theorem composeDispatchEmail_most_recent_case_witness:
  "\<not> hasCaseOf ''S1'' (casebook (agentC (casebookSystem []))) \<and>
   composeDispatchEmail ''S1'' (casebookSystem []) = (noUnresolvedCase, casebookSystem []) \<and>
   latestCaseOf ''S1'' (casebook (agentC (casebookSystem [restoredCase, stabilizedCase]))) stabilizedCase \<and>
   dispatchSuggested stabilizedCase \<and>
   ok (fst (composeDispatchEmail ''S1'' (casebookSystem [restoredCase, stabilizedCase]))) \<and>
   subject (fst (composeDispatchEmail ''S1'' (casebookSystem [restoredCase, stabilizedCase]))) =
     Some (''[DISPATCH] S1 '' @ enDash @ '' correlated_alarm_cluster '' @ enDash @ '' Action required'') \<and>
   latestCaseOf ''S1'' (casebook (agentC (casebookSystem [stabilizedCase, restoredCase]))) restoredCase \<and>
   \<not> dispatchSuggested restoredCase \<and>
   composeDispatchEmail ''S1'' (casebookSystem [stabilizedCase, restoredCase]) =
     (noUnresolvedCase, casebookSystem [stabilizedCase, restoredCase])"
proof -
  have cf: "countsFor ''S1'' stabilizedCase" "countsFor ''S1'' restoredCase"
    by (simp_all add: countsFor_def stabilizedCase_def restoredCase_def isNoise_def strOr_def
          NOISE_CAUSES_def toLowerCase_def lowerChar_def)
  have cb: "\<And>xs. casebook (agentC (casebookSystem xs)) = xs"
    by (simp add: casebookSystem_def)
  have h0: "\<not> hasCaseOf ''S1'' (casebook (agentC (casebookSystem [])))"
    by (simp add: cb hasCaseOf_def)
  have "[restoredCase, stabilizedCase] = [restoredCase] @ stabilizedCase # []" by simp
  with cf have h1: "latestCaseOf ''S1'' (casebook (agentC (casebookSystem [restoredCase, stabilizedCase]))) stabilizedCase"
    unfolding latestCaseOf_def cb by (metis empty_iff list.set(1))
  have "[stabilizedCase, restoredCase] = [stabilizedCase] @ restoredCase # []" by simp
  with cf have h2: "latestCaseOf ''S1'' (casebook (agentC (casebookSystem [stabilizedCase, restoredCase]))) restoredCase"
    unfolding latestCaseOf_def cb by (metis empty_iff list.set(1))
  have d: "dispatchSuggested stabilizedCase" "\<not> dispatchSuggested restoredCase"
    by (simp_all add: stabilizedCase_def restoredCase_def)
  have sj: "dispatchSubject ''S1'' stabilizedCase =
      ''[DISPATCH] S1 '' @ enDash @ '' correlated_alarm_cluster '' @ enDash @ '' Action required''"
    by (simp add: dispatchSubject_def stabilizedCase_def strOr_def)
  from composeDispatchEmail_most_recent_case [of "''S1''" "casebookSystem []"]
       composeDispatchEmail_most_recent_case [of "''S1''" "casebookSystem [restoredCase, stabilizedCase]"]
       composeDispatchEmail_most_recent_case [of "''S1''" "casebookSystem [stabilizedCase, restoredCase]"]
       h0 h1 h2 d sj
  show ?thesis by auto
qed

section \<open>Agent A: the filter of the batch mode\<close>

lemma set_insertByTime [simp]: "set (insertByTime rt x ys) = insert x (set ys)"
  by (induction ys) auto

lemma set_sortByTime [simp]: "set (sortByTime rt l) = set l"
  by (induction l) (simp_all add: sortByTime_def)

lemma windowLoop_events:
  "inc \<in> set (windowLoop rt w st evs cur acc) \<Longrightarrow>
   set (incEvents inc) \<subseteq>
     set evs \<union> (case cur of None \<Rightarrow> {} | Some c \<Rightarrow> set (incEvents c)) \<union> (\<Union>a \<in> set acc. set (incEvents a))"
proof (induction evs arbitrary: cur acc)
  case Nil
  then show ?case by (cases cur) auto
next
  case (Cons ev evs)
  show ?case
  proof (cases cur)
    case None
    with Cons.prems have "inc \<in> set (windowLoop rt w st evs (Some (newIncident st ev)) acc)" by simp
    from Cons.IH [OF this] None show ?thesis by (auto simp: newIncident_def)
  next
    case (Some c)
    show ?thesis
    proof (cases "withinWindow rt w (ceTimestamp ev) (incEnd c)")
      case True
      with Some Cons.prems have "inc \<in> set (windowLoop rt w st evs
                 (Some (c\<lparr> incEnd := ceTimestamp ev, incCount := incCount c + 1,
                           incTypes := setAdd (orStr (ceType ev) (ceAlarm ev)) (incTypes c),
                           incEvents := incEvents c @ [ev] \<rparr>)) acc)" by simp
      from Cons.IH [OF this] Some show ?thesis by auto
    next
      case False
      with Some Cons.prems have "inc \<in> set (windowLoop rt w st evs (Some (newIncident st ev)) (acc @ [c]))"
        by simp
      from Cons.IH [OF this] Some show ?thesis by (auto simp: newIncident_def)
    qed
  qed
qed

lemma set_update_subset: "set (AList.update k v m) \<subseteq> insert (k, v) (set m)"
  by (induction m) (auto split: if_splits)

lemma groupBySite_fold_events:
  "\<forall>(k, l) \<in> set m. set l \<subseteq> S \<Longrightarrow> set es \<subseteq> S \<Longrightarrow>
   \<forall>(k, l) \<in> set (fold (\<lambda>e m. AList.update (ceSiteId e)
                    (case map_of m (ceSiteId e) of None \<Rightarrow> [e] | Some l \<Rightarrow> l @ [e]) m) es m). set l \<subseteq> S"
proof (induction es arbitrary: m)
  case Nil
  then show ?case by simp
next
  case (Cons e es)
  let ?v = "case map_of m (ceSiteId e) of None \<Rightarrow> [e] | Some l \<Rightarrow> l @ [e]"
  have v: "set ?v \<subseteq> S"
  proof (cases "map_of m (ceSiteId e)")
    case None
    with Cons.prems(2) show ?thesis by simp
  next
    case (Some l)
    then have "(ceSiteId e, l) \<in> set m" by (rule map_of_SomeD)
    with Cons.prems(1) have "set l \<subseteq> S" by auto
    with Some Cons.prems(2) show ?thesis by simp
  qed
  have "\<forall>(k, l) \<in> set (AList.update (ceSiteId e) ?v m). set l \<subseteq> S"
  proof (clarify)
    fix k l x assume kl: "(k, l) \<in> set (AList.update (ceSiteId e) ?v m)" and x: "x \<in> set l"
    from kl set_update_subset [of "ceSiteId e" ?v m]
    have "(k, l) = (ceSiteId e, ?v) \<or> (k, l) \<in> set m" by blast
    then show "x \<in> S"
    proof
      assume "(k, l) = (ceSiteId e, ?v)"
      then have "l = ?v" by simp
      with x v show ?thesis by blast
    next
      assume "(k, l) \<in> set m"
      with Cons.prems(1) x show ?thesis by blast
    qed
  qed
  moreover have "set es \<subseteq> S" using Cons.prems(2) by simp
  ultimately show ?case using Cons.IH by simp
qed

lemma groupBySite_events: "(k, l) \<in> set (groupBySite es) \<Longrightarrow> set l \<subseteq> set es"
  using groupBySite_fold_events [of "[]" "set es" es] unfolding groupBySite_def by auto

lemma fold_windowLoop_events:
  "inc \<in> set (fold (\<lambda>(st, l) acc. windowLoop rt w st (sortByTime rt l) None acc) gs acc0) \<Longrightarrow>
   set (incEvents inc) \<subseteq> (\<Union>(k, l) \<in> set gs. set l) \<union> (\<Union>a \<in> set acc0. set (incEvents a))"
proof (induction gs arbitrary: acc0)
  case Nil
  then show ?case by auto
next
  case (Cons g gs)
  obtain st l where g: "g = (st, l)" by (cases g)
  from Cons.prems g have "inc \<in> set (fold (\<lambda>(st, l) acc. windowLoop rt w st (sortByTime rt l) None acc) gs
          (windowLoop rt w st (sortByTime rt l) None acc0))" by simp
  from Cons.IH [OF this] have a: "set (incEvents inc) \<subseteq> (\<Union>(k, l) \<in> set gs. set l) \<union>
      (\<Union>a \<in> set (windowLoop rt w st (sortByTime rt l) None acc0). set (incEvents a))" .
  have b: "\<And>a. a \<in> set (windowLoop rt w st (sortByTime rt l) None acc0) \<Longrightarrow>
      set (incEvents a) \<subseteq> set l \<union> (\<Union>a \<in> set acc0. set (incEvents a))"
    using windowLoop_events [of _ rt w st "sortByTime rt l" None acc0] by simp
  show ?case
  proof
    fix x assume "x \<in> set (incEvents inc)"
    with a b g show "x \<in> (\<Union>(k, l) \<in> set (g # gs). set l) \<union> (\<Union>a \<in> set acc0. set (incEvents a))"
      by fastforce
  qed
qed

lemma correlateIncidents_events:
  "inc \<in> set (correlateIncidents rt p w events) \<Longrightarrow> e \<in> set (incEvents inc) \<Longrightarrow>
   e \<in> set events \<and> keeps p e"
proof -
  assume a: "inc \<in> set (correlateIncidents rt p w events)" and b: "e \<in> set (incEvents inc)"
  from a have "set (incEvents inc) \<subseteq> (\<Union>(k, l) \<in> set (groupBySite (filter (keeps p) events)). set l)"
    using fold_windowLoop_events [of inc rt w "groupBySite (filter (keeps p) events)" "[]"]
    unfolding correlateIncidents_def by simp
  with b obtain k l where "(k, l) \<in> set (groupBySite (filter (keeps p) events))" "e \<in> set l"
    by auto
  then have "e \<in> set (filter (keeps p) events)"
    using groupBySite_events by blast
  then show ?thesis by simp
qed

lemma noise_code_dropped:
  "toLowerCase (eventCode e) \<in> set NOISE_ALARMS \<Longrightarrow> \<not> keeps p e"
  by (auto simp: keeps_def isNoiseAlarm_def strOr_def NOISE_ALARMS_def toLowerCase_def)

lemma lower_critical_first: "toLowerCase ''Critical First'' = ''critical first''"
  by (simp add: toLowerCase_def lowerChar_def)

lemma eventCode_nonempty: "eventCode e \<noteq> []"
  by (simp add: eventCode_def strOr_def orStr_def truthy_def split: option.splits)

lemma non_critical_dropped:
  "alarmPrioritization p = ''Critical First'' \<Longrightarrow>
   \<not> (\<exists>q \<in> set CRITICAL_PATTERNS. contains (toLowerCase q) (toLowerCase (eventCode e))) \<Longrightarrow>
   \<not> keeps p e"
  by (simp add: keeps_def policyMode_def lower_critical_first isCriticalAlarm_def String_def)


text \<open>The four example events under the policy of the running process.\<close>

lemma runningSystem_policy:
  "alarmPrioritization (pol (runningSystem answers)) = ''Critical First''"
  by (simp add: runningSystem_def initialSystem_def DEFAULT_POLICY_def)

lemma batch_codes:
  "toLowerCase (eventCode heartbeatEvent) = ''heartbeat''"
  "toLowerCase (eventCode doorEvent) = ''dooropen''"
  "toLowerCase (eventCode mainsFailureEvent) = ''mainsfailure''"
  by (simp_all add: eventCode_def heartbeatEvent_def doorEvent_def mainsFailureEvent_def
        strOr_def orStr_def truthy_def toLowerCase_def lowerChar_def)

lemma door_not_critical:
  "\<not> (\<exists>q \<in> set CRITICAL_PATTERNS. contains (toLowerCase q) ''dooropen'')"
  by (simp add: CRITICAL_PATTERNS_def toLowerCase_def lowerChar_def contains_def)

lemma batch_keeps:
  "\<not> keeps (pol (runningSystem [])) noSiteEvent"
  "\<not> keeps (pol (runningSystem [])) heartbeatEvent"
  "\<not> keeps (pol (runningSystem [])) doorEvent"
  "keeps (pol (runningSystem [])) mainsFailureEvent"
  by (simp_all add: keeps_def eventCode_def noSiteEvent_def heartbeatEvent_def doorEvent_def
        mainsFailureEvent_def orElse_def strOr_def orStr_def
        truthy_def isNoiseAlarm_def NOISE_ALARMS_def policyMode_def runningSystem_policy
        isCriticalAlarm_def CRITICAL_PATTERNS_def String_def toLowerCase_def lowerChar_def)

lemma batch_result:
  "map incEvents (fst (correlate rt0 [noSiteEvent, heartbeatEvent, doorEvent, mainsFailureEvent] (runningSystem []))) =
     [[mainsFailureEvent]]"
  by (simp add: correlateIncidents_def batch_keeps groupBySite_def sortByTime_def newIncident_def)


text \<open>
  The copy of the file without the filter returns the heartbeat in an incident: the
  property above is one of the copy that filters.
\<close>

lemma legacyCorrelate_keeps_heartbeat:
  "map incEvents (legacyCorrelate rt0 [heartbeatEvent]) = [[heartbeatEvent]]"
  by (simp add: legacyCorrelate_def legacyGroupBySite_def sortByTime_def heartbeatEvent_def
        orElse_def truthy_def)

section \<open>The order and the timestamp of the emissions of one ingest\<close>

text \<open>What reaches the channel \<open>event\<close>, piece by piece.\<close>

lemma onEventChannel_append [simp]:
  "onEventChannel (xs @ ys) = onEventChannel xs @ onEventChannel ys"
  by (simp add: onEventChannel_def)

lemma onEventChannel_Nil [simp]: "onEventChannel [] = []"
  by (simp add: onEventChannel_def)

lemma onEventChannel_concat:
  "onEventChannel (concat xss) = concat (map onEventChannel xss)"
  by (induction xss) simp_all

lemma onEventChannel_emitBoth:
  "ty \<noteq> ''event'' \<Longrightarrow> onEventChannel (emitBoth ty payload) = [payload\<lparr> evType := Some ty \<rparr>]"
  by (simp add: onEventChannel_def emitBoth_def)

text \<open>The block of one site in the alarm loop.\<close>

lemma alarm_block:
  "\<exists>rs cs. onEventChannel (alarmDeltas ts prev cur k) = rs @ cs \<and>
     (\<forall>e \<in> set rs. evType e = Some ''alarm.raised'' \<and> evSiteId e = Some k \<and> evTs e = Some ts) \<and>
     (\<forall>e \<in> set cs. evType e = Some ''alarm.cleared'' \<and> evSiteId e = Some k \<and> evTs e = Some ts)"
proof -
  let ?raised = "filter (\<lambda>a. a \<notin> set (orElse (map_of prev k) [])) (orElse (map_of cur k) [])"
  let ?cleared = "filter (\<lambda>a. a \<notin> set (orElse (map_of cur k) [])) (orElse (map_of prev k) [])"
  let ?rs = "map (\<lambda>a. (alarmPayload k a ts False)\<lparr> evType := Some ''alarm.raised'' \<rparr>) ?raised"
  let ?cs = "map (\<lambda>a. (alarmPayload k a ts False)\<lparr> evType := Some ''alarm.cleared'' \<rparr>) ?cleared"
  have r: "\<And>xs. onEventChannel (concat (map (\<lambda>a. emitBoth ''alarm.raised'' (alarmPayload k a ts False)) xs)) =
            map (\<lambda>a. (alarmPayload k a ts False)\<lparr> evType := Some ''alarm.raised'' \<rparr>) xs"
    by (induct_tac xs) (simp_all add: onEventChannel_emitBoth)
  have c: "\<And>xs. onEventChannel (concat (map (\<lambda>a. emitBoth ''alarm.cleared'' (alarmPayload k a ts False)) xs)) =
            map (\<lambda>a. (alarmPayload k a ts False)\<lparr> evType := Some ''alarm.cleared'' \<rparr>) xs"
    by (induct_tac xs) (simp_all add: onEventChannel_emitBoth)
  have "onEventChannel (alarmDeltas ts prev cur k) = ?rs @ ?cs"
    by (simp add: alarmDeltas_def Let_def r c)
  moreover have "\<forall>e \<in> set ?rs. evType e = Some ''alarm.raised'' \<and> evSiteId e = Some k \<and> evTs e = Some ts"
    by (auto simp: alarmPayload_def)
  moreover have "\<forall>e \<in> set ?cs. evType e = Some ''alarm.cleared'' \<and> evSiteId e = Some k \<and> evTs e = Some ts"
    by (auto simp: alarmPayload_def)
  ultimately show ?thesis by blast
qed

lemma alarm_block_props:
  "\<forall>e \<in> set (onEventChannel (alarmDeltas ts prev cur k)).
      (evType e = Some ''alarm.raised'' \<or> evType e = Some ''alarm.cleared'') \<and>
      evSiteId e = Some k \<and> evTs e = Some ts"
  "sorted (map phase (onEventChannel (alarmDeltas ts prev cur k)))"
proof -
  obtain rs cs where b: "onEventChannel (alarmDeltas ts prev cur k) = rs @ cs"
     "\<forall>e \<in> set rs. evType e = Some ''alarm.raised'' \<and> evSiteId e = Some k \<and> evTs e = Some ts"
     "\<forall>e \<in> set cs. evType e = Some ''alarm.cleared'' \<and> evSiteId e = Some k \<and> evTs e = Some ts"
    using alarm_block by blast
  show "\<forall>e \<in> set (onEventChannel (alarmDeltas ts prev cur k)).
      (evType e = Some ''alarm.raised'' \<or> evType e = Some ''alarm.cleared'') \<and>
      evSiteId e = Some k \<and> evTs e = Some ts"
    using b by auto
  have "map phase rs = replicate (length rs) 0"
    using b(2) by (auto simp: phase_def map_replicate_const [symmetric] intro!: map_cong)
  moreover have "map phase cs = replicate (length cs) 1"
    using b(3) by (auto simp: phase_def map_replicate_const [symmetric] intro!: map_cong)
  ultimately show "sorted (map phase (onEventChannel (alarmDeltas ts prev cur k)))"
    using b(1) by (simp add: sorted_append)
qed

lemma service_block_props:
  "\<forall>e \<in> set (onEventChannel (serviceDeltas ts prev cur k)).
      evType e = Some ''service.changed'' \<and> evSiteId e = Some k \<and> evTs e = Some ts"
  by (auto simp: serviceDeltas_def Let_def onEventChannel_emitBoth servicePayload_def)

text \<open>Blocks of events, one per site of a duplicate-free list, are sorted by the key.\<close>

lemma sorted_blocks:
  assumes "distinct ks"
      and "\<And>k. k \<in> set ks \<Longrightarrow> \<forall>e \<in> set (blk k). evSiteId e = Some k \<and> ph e \<le> 1"
      and "\<And>k. k \<in> set ks \<Longrightarrow> sorted (map ph (blk k))"
  shows "sorted (map (\<lambda>e. 2 * position (map Some ks) (evSiteId e) + ph e) (concat (map blk ks)))"
  using assms
proof (induction ks)
  case Nil
  then show ?case by simp
next
  case (Cons k ks)
  let ?key = "\<lambda>e. 2 * position (map Some (k # ks)) (evSiteId e) + ph e"
  let ?key' = "\<lambda>e. 2 * position (map Some ks) (evSiteId e) + ph e"
  have first: "\<forall>e \<in> set (blk k). ?key e = ph e"
    using Cons.prems(2) [of k] by simp
  have rest: "\<forall>e \<in> set (concat (map blk ks)). ?key e = ?key' e + 2"
  proof
    fix e assume "e \<in> set (concat (map blk ks))"
    then obtain k' where k': "k' \<in> set ks" "e \<in> set (blk k')" by auto
    then have "evSiteId e = Some k'" using Cons.prems(2) [of k'] by simp
    moreover have "k' \<noteq> k" using k'(1) Cons.prems(1) by auto
    ultimately show "?key e = ?key' e + 2" by simp
  qed
  have s1: "sorted (map ?key (blk k))"
  proof -
    have "map ?key (blk k) = map ph (blk k)"
      by (rule map_cong [OF refl]) (use first in blast)
    then show ?thesis using Cons.prems(3) [of k] by (simp only: list.set_intros)
  qed
  have s2: "sorted (map ?key (concat (map blk ks)))"
  proof -
    have "sorted (map ?key' (concat (map blk ks)))"
    proof (rule Cons.IH)
      show "distinct ks" using Cons.prems(1) by simp
      show "\<And>k'. k' \<in> set ks \<Longrightarrow> \<forall>e \<in> set (blk k'). evSiteId e = Some k' \<and> ph e \<le> 1"
        by (rule Cons.prems(2)) simp
      show "\<And>k'. k' \<in> set ks \<Longrightarrow> sorted (map ph (blk k'))"
        by (rule Cons.prems(3)) simp
    qed
    moreover have "map ?key (concat (map blk ks)) = map (\<lambda>n. n + 2) (map ?key' (concat (map blk ks)))"
      unfolding map_map comp_def by (rule map_cong [OF refl]) (use rest in blast)
    ultimately show ?thesis
      by (simp only: sorted_map) (simp add: sorted_wrt_map)
  qed
  have s3: "\<forall>x \<in> set (blk k). \<forall>y \<in> set (concat (map blk ks)). ?key x \<le> ?key y"
  proof (intro ballI)
    fix x y assume x: "x \<in> set (blk k)" and y: "y \<in> set (concat (map blk ks))"
    have a: "?key x = ph x" using first x by blast
    have b: "ph x \<le> 1" using Cons.prems(2) [of k] x by simp
    have c: "?key y = ?key' y + 2" using rest y by blast
    show "?key x \<le> ?key y" using a b c by linarith
  qed
  have "map ?key (concat (map blk (k # ks))) = map ?key (blk k) @ map ?key (concat (map blk ks))"
    by simp
  then show ?case
    using s1 s2 s3 by (simp only: sorted_append) auto
qed

lemma distinct_uniq [simp]: "distinct (uniq xs)"
  by (simp add: uniq_def)


lemma phase_le_1 [simp]: "phase e \<le> Suc 0"
  by (simp add: phase_def)

lemma alarm_blocks_sorted:
  "sorted (map (groupKey (uniq ks)) (concat (map (\<lambda>k. onEventChannel (alarmDeltas ts prev cur k)) (uniq ks))))"
  unfolding groupKey_def
  by (rule sorted_blocks) (use alarm_block_props in \<open>simp_all\<close>)

lemma service_blocks_sorted:
  "sorted (map (groupKey (uniq ks)) (concat (map (\<lambda>k. onEventChannel (serviceDeltas ts prev cur k)) (uniq ks))))"
  unfolding groupKey_def
proof (rule sorted_blocks)
  show "distinct (uniq ks)" by simp
  show "\<And>k. k \<in> set (uniq ks) \<Longrightarrow>
          \<forall>e \<in> set (onEventChannel (serviceDeltas ts prev cur k)). evSiteId e = Some k \<and> phase e \<le> 1"
    using service_block_props by simp
  show "\<And>k. k \<in> set (uniq ks) \<Longrightarrow> sorted (map phase (onEventChannel (serviceDeltas ts prev cur k)))"
  proof -
    fix k
    have "map phase (onEventChannel (serviceDeltas ts prev cur k)) =
          replicate (length (onEventChannel (serviceDeltas ts prev cur k))) 0"
      unfolding map_replicate_const [symmetric]
      by (rule map_cong [OF refl]) (use service_block_props [of ts prev cur k] in \<open>simp add: phase_def\<close>)
    then show "sorted (map phase (onEventChannel (serviceDeltas ts prev cur k)))" by simp
  qed
qed

lemma emitBoth_ts:
  "evTs payload = Some ts \<Longrightarrow> \<forall>(c, e) \<in> set (emitBoth ty payload). evTs e = Some ts"
  by (simp add: emitBoth_def)

lemma alarmDeltas_ts: "\<forall>(c, e) \<in> set (alarmDeltas ts prev cur k). evTs e = Some ts"
  by (auto simp: alarmDeltas_def Let_def emitBoth_def alarmPayload_def)

lemma serviceDeltas_ts: "\<forall>(c, e) \<in> set (serviceDeltas ts prev cur k). evTs e = Some ts"
  by (auto simp: serviceDeltas_def Let_def emitBoth_def servicePayload_def)

lemma ingest_with_previous:
  assumes "lastAlarmsBySite de = Some pa" and "lastServiceBySite de = Some ps"
  shows "fst (ingest ts st de) =
           concat (map (alarmDeltas ts pa (extractAlarmsBySite st)) (alarmSiteOrder pa st)) @
           concat (map (serviceDeltas ts ps (extractServiceBySite st)) (serviceSiteOrder ps st))"
  using assms by (simp add: ingest_def Let_def alarmSiteOrder_def serviceSiteOrder_def)

text \<open>
  Claim C5, as the code has it. When a previous view is stored, the events of one
  \<open>ingest\<close> come on the channel \<open>event\<close> as the alarm events followed by the
  service changes. Neither loop sorts the site keys: each visits the sites in the order
  of the keys of the previous view followed by the keys new in the current one, and the
  alarm loop emits for each site its raised alarms and then its cleared ones before it
  goes to the next site. Every emission of the call, on every channel, carries the
  timestamp read at the start of the call.
\<close>

theorem ingest_order_and_timestamp:
  assumes "lastAlarmsBySite de = Some pa" and "lastServiceBySite de = Some ps"
  shows "\<exists>as ss. onEventChannel (fst (ingest ts st de)) = as @ ss \<and>
           (\<forall>e \<in> set as. evType e = Some ''alarm.raised'' \<or> evType e = Some ''alarm.cleared'') \<and>
           (\<forall>e \<in> set ss. evType e = Some ''service.changed'') \<and>
           sorted (map (groupKey (alarmSiteOrder pa st)) as) \<and>
           sorted (map (groupKey (serviceSiteOrder ps st)) ss) \<and>
           (\<forall>(c, e) \<in> set (fst (ingest ts st de)). evTs e = Some ts)"
proof -
  let ?as = "concat (map (\<lambda>k. onEventChannel (alarmDeltas ts pa (extractAlarmsBySite st) k)) (alarmSiteOrder pa st))"
  let ?ss = "concat (map (\<lambda>k. onEventChannel (serviceDeltas ts ps (extractServiceBySite st) k)) (serviceSiteOrder ps st))"
  have split: "onEventChannel (fst (ingest ts st de)) = ?as @ ?ss"
    by (simp add: ingest_with_previous [OF assms] onEventChannel_concat comp_def)
  have alarms: "\<forall>e \<in> set ?as. evType e = Some ''alarm.raised'' \<or> evType e = Some ''alarm.cleared''"
    using alarm_block_props(1) by fastforce
  have services: "\<forall>e \<in> set ?ss. evType e = Some ''service.changed''"
    using service_block_props by fastforce
  have s1: "sorted (map (groupKey (alarmSiteOrder pa st)) ?as)"
    unfolding alarmSiteOrder_def by (rule alarm_blocks_sorted)
  have s2: "sorted (map (groupKey (serviceSiteOrder ps st)) ?ss)"
    unfolding serviceSiteOrder_def by (rule service_blocks_sorted)
  have stamp: "\<forall>(c, e) \<in> set (fst (ingest ts st de)). evTs e = Some ts"
    unfolding ingest_with_previous [OF assms]
    using alarmDeltas_ts serviceDeltas_ts by fastforce
  show ?thesis
    using split alarms services s1 s2 stamp by blast
qed

text \<open>The second snapshot ingested after the first.\<close>

lemma storedEmitter_views:
  "lastAlarmsBySite storedEmitter = Some [(''B'', [''DoorOpen'']), (''A'', [])]"
  "lastServiceBySite storedEmitter =
     Some [(''B'', (Some ''Available'', Some ''Available'')), (''A'', (Some ''Available'', Some ''Available''))]"
  by (simp_all add: storedEmitter_def ingest_def Let_def firstSnapshot_def freshEmitter_def
        extractAlarmsBySite_def extractServiceBySite_def healthySite_def uniq_def)

lemma second_ingest:
  "map (\<lambda>e. (evType e, evSiteId e, evTs e)) (onEventChannel (fst (ingest ''T1'' secondSnapshot storedEmitter))) =
     [(Some ''alarm.raised'', Some ''B'', Some ''T1''),
      (Some ''alarm.cleared'', Some ''B'', Some ''T1''),
      (Some ''alarm.raised'', Some ''A'', Some ''T1''),
      (Some ''service.changed'', Some ''A'', Some ''T1'')]"
  by (simp add: ingest_def Let_def storedEmitter_views secondSnapshot_def
        extractAlarmsBySite_def extractServiceBySite_def healthySite_def uniq_def
        alarmDeltas_def serviceDeltas_def emitBoth_def onEventChannel_def orElse_def
        alarmPayload_def servicePayload_def)

text \<open>
  The claim as stated fails for the order of the sites: with the keys B and A in that
  order in both snapshots, the events of B come before those of A, and the cleared
  alarm of B comes before the raised alarm of A.
\<close>

theorem ingest_sites_not_ascending:
  "lastAlarmsBySite storedEmitter \<noteq> None \<and> lastServiceBySite storedEmitter \<noteq> None \<and>
   siteKeys (onEventChannel (fst (ingest ''T1'' secondSnapshot storedEmitter))) = [''B'', ''B'', ''A'', ''A''] \<and>
   \<not> sorted (siteKeys (onEventChannel (fst (ingest ''T1'' secondSnapshot storedEmitter)))) \<and>
   map evType (onEventChannel (fst (ingest ''T1'' secondSnapshot storedEmitter))) =
     [Some ''alarm.raised'', Some ''alarm.cleared'', Some ''alarm.raised'', Some ''service.changed'']"
proof -
  have keys: "siteKeys (onEventChannel (fst (ingest ''T1'' secondSnapshot storedEmitter))) =
              concat (map (\<lambda>(t, k, s). case k of Some k \<Rightarrow> [k] | None \<Rightarrow> [])
                (map (\<lambda>e. (evType e, evSiteId e, evTs e)) (onEventChannel (fst (ingest ''T1'' secondSnapshot storedEmitter)))))"
    by (simp add: siteKeys_def comp_def)
  have types: "map evType (onEventChannel (fst (ingest ''T1'' secondSnapshot storedEmitter))) =
               map fst (map (\<lambda>e. (evType e, evSiteId e, evTs e)) (onEventChannel (fst (ingest ''T1'' secondSnapshot storedEmitter))))"
    by (simp add: comp_def)
  show ?thesis
    unfolding keys types second_ingest
    by (simp add: storedEmitter_views)
qed

text \<open>The theorem at the same call.\<close>

theorem ingest_order_and_timestamp_witness:
  "lastAlarmsBySite storedEmitter = Some [(''B'', [''DoorOpen'']), (''A'', [])] \<and>
   lastServiceBySite storedEmitter =
     Some [(''B'', (Some ''Available'', Some ''Available'')), (''A'', (Some ''Available'', Some ''Available''))] \<and>
   alarmSiteOrder [(''B'', [''DoorOpen'']), (''A'', [])] secondSnapshot = [''B'', ''A''] \<and>
   (\<exists>as ss. onEventChannel (fst (ingest ''T1'' secondSnapshot storedEmitter)) = as @ ss \<and>
      list_all (\<lambda>e. evType e = Some ''alarm.raised'' \<or> evType e = Some ''alarm.cleared'') as \<and>
      list_all (\<lambda>e. evType e = Some ''service.changed'') ss \<and>
      sorted (map (groupKey [''B'', ''A'']) as) \<and>
      list_all (\<lambda>(c, e). evTs e = Some ''T1'') (fst (ingest ''T1'' secondSnapshot storedEmitter)))"
proof -
  have order: "alarmSiteOrder [(''B'', [''DoorOpen'']), (''A'', [])] secondSnapshot = [''B'', ''A'']"
    by (simp add: alarmSiteOrder_def extractAlarmsBySite_def secondSnapshot_def uniq_def)
  show ?thesis
    using ingest_order_and_timestamp [OF storedEmitter_views, of "''T1''" secondSnapshot]
    unfolding order
    by (simp only: storedEmitter_views order list_all_iff simp_thms) blast
qed
end
